theory Spec2Isabelle
  imports Complex_Main
begin

section \<open>Subway Runner: the simulation core of \<open>subway_runner.py\<close>\<close>

text \<open>
  The embedding follows the source function by function. Conventions:
  \<^item> Python \<open>int\<close> is \<open>int\<close>; Python \<open>float\<close> is \<open>real\<close>, that is, exact arithmetic:
    rounding of IEEE doubles is not modelled.
  \<^item> Objects are records; a list of objects is a list of records. The classes define no
    \<open>__eq__\<close>, so \<open>list.remove(obj)\<close> removes the very object that is being visited; the
    loops below therefore return the list of the objects they keep.
  \<^item> \<open>random\<close> is an input: every draw of a step is a field of the record \<open>rnd\<close>.
  \<^item> \<open>pygame.Rect\<close> and \<open>colliderect\<close> are the library's: integer rectangles, float
    arguments truncated toward zero, strict overlap.
  \<^item> Drawing is left out; \<open>sys.exit()\<close> and a raised exception are results of a frame.
\<close>

subsection \<open>Module constants\<close>

definition WIDTH :: int where "WIDTH = 480"
definition HEIGHT :: int where "HEIGHT = 700"

definition LANES :: "int list" where
  "LANES = [WIDTH div 4, WIDTH div 2, (3 * WIDTH) div 4]"

definition LANE_COUNT :: int where "LANE_COUNT = 3"
definition GROUND_Y :: int where "GROUND_Y = HEIGHT - 110"

datatype color = CYAN | YELLOW | LIGHT_GRAY | GOLD | RED | PURPLE | ORANGE | GRAY | BROWN

datatype py_error = ZeroDivisionError

subsection \<open>Python and pygame primitives\<close>

text \<open>\<open>int(x)\<close> on a float truncates toward zero.\<close>

definition py_int :: "real \<Rightarrow> int" where
  "py_int x = (if 0 \<le> x then \<lfloor>x\<rfloor> else \<lceil>x\<rceil>)"

text \<open>\<open>a % m\<close> on floats with \<open>m > 0\<close>: the result has the sign of \<open>m\<close>.\<close>

definition py_fmod :: "real \<Rightarrow> real \<Rightarrow> real" where
  "py_fmod a m = a - m * of_int \<lfloor>a / m\<rfloor>"

text \<open>\<open>a / b\<close> raises \<open>ZeroDivisionError\<close> when \<open>b\<close> is zero.\<close>

definition py_truediv :: "real \<Rightarrow> real \<Rightarrow> py_error + real" where
  "py_truediv a b = (if b = 0 then Inl ZeroDivisionError else Inr (a / b))"

text \<open>\<open>math.hypot\<close>.\<close>

definition hypot :: "real \<Rightarrow> real \<Rightarrow> real" where
  "hypot dx dy = sqrt (dx * dx + dy * dy)"

record rect =
  rx :: int
  ry :: int
  rw :: int
  rh :: int

text \<open>\<open>pygame.Rect(x, y, w, h)\<close>: the coordinates are stored as C ints, a float is cast.\<close>

definition Rect :: "real \<Rightarrow> real \<Rightarrow> int \<Rightarrow> int \<Rightarrow> rect" where
  "Rect x y w h = \<lparr>rx = py_int x, ry = py_int y, rw = w, rh = h\<rparr>"

definition width :: "rect \<Rightarrow> int" where "width r = rw r"
definition centerx :: "rect \<Rightarrow> int" where "centerx r = rx r + rw r div 2"
definition centery :: "rect \<Rightarrow> int" where "centery r = ry r + rh r div 2"

text \<open>\<open>Rect.colliderect\<close> (pygame 2): empty rectangles never collide, edges do not count.\<close>

definition colliderect :: "rect \<Rightarrow> rect \<Rightarrow> bool" where
  "colliderect A B =
     (if rw A = 0 \<or> rh A = 0 \<or> rw B = 0 \<or> rh B = 0 then False
      else min (rx A) (rx A + rw A) < max (rx B) (rx B + rw B) \<and>
           min (ry A) (ry A + rh A) < max (ry B) (ry B + rh B) \<and>
           max (rx A) (rx A + rw A) > min (rx B) (rx B + rw B) \<and>
           max (ry A) (ry A + rh A) > min (ry B) (ry B + rh B))"

subsection \<open>Particle system\<close>

record particle =
  pa_x :: real
  pa_y :: real
  pa_color :: color
  pa_vel_x :: real
  pa_vel_y :: real
  life :: int
  max_life :: int
  pa_size :: int

text \<open>
  \<open>Particle.__init__\<close> with the defaults \<open>vel_x=0, vel_y=0, life=30\<close> that every caller
  uses; \<open>u\<close> is the pair of \<open>random.uniform\<close> draws.
\<close>

definition Particle :: "real \<Rightarrow> real \<Rightarrow> color \<Rightarrow> real \<times> real \<Rightarrow> int \<Rightarrow> particle" where
  "Particle x y col u sz =
     \<lparr>pa_x = x, pa_y = y, pa_color = col, pa_vel_x = 0 + fst u, pa_vel_y = 0 + snd u,
      life = 30, max_life = 30, pa_size = sz\<rparr>"

definition Particle_update :: "particle \<Rightarrow> particle" where
  "Particle_update p =
     p\<lparr>pa_x := pa_x p + pa_vel_x p, pa_y := pa_y p + pa_vel_y p,
       pa_vel_y := pa_vel_y p + 0.15, life := life p - 1\<rparr>"

text \<open>
  \<open>spawn_particles\<close> appends \<open>count\<close> particles to the module-level list. The draws of
  the particle appended at position \<open>n\<close> of the list are \<open>jit n\<close>.
\<close>

definition spawn_particles ::
  "(nat \<Rightarrow> real \<times> real) \<Rightarrow> real \<Rightarrow> real \<Rightarrow> color \<Rightarrow> nat \<Rightarrow> int \<Rightarrow> particle list \<Rightarrow> particle list" where
  "spawn_particles jit x y col count sz ps =
     ps @ map (\<lambda>i. Particle x y col (jit (length ps + i)) sz) [0..<count]"

subsection \<open>Player\<close>

record player =
  lane :: int
  pl_x :: real
  pl_y :: real
  vel_y :: real
  on_ground :: bool
  sliding :: bool
  slide_timer :: int
  target_x :: real
  invincible :: int
  anim_frame :: int
  anim_timer :: int
  double_jump :: bool

definition P_WIDTH :: int where "P_WIDTH = 36"
definition P_HEIGHT :: int where "P_HEIGHT = 56"
definition JUMP_VEL :: real where "JUMP_VEL = - 16"
definition GRAVITY :: real where "GRAVITY = 0.7"

definition Player :: player where
  "Player =
     \<lparr>lane = 1, pl_x = of_int (LANES ! 1), pl_y = of_int GROUND_Y, vel_y = 0,
      on_ground = True, sliding = False, slide_timer = 0, target_x = of_int (LANES ! 1),
      invincible = 0, anim_frame = 0, anim_timer = 0, double_jump = True\<rparr>"

definition Player_rect :: "player \<Rightarrow> rect" where
  "Player_rect p =
     (if sliding p then
        Rect (pl_x p - of_int (P_WIDTH div 2)) (pl_y p - of_int (P_HEIGHT div 3))
             P_WIDTH (P_HEIGHT div 3)
      else
        Rect (pl_x p - of_int (P_WIDTH div 2)) (pl_y p - of_int P_HEIGHT) P_WIDTH P_HEIGHT)"

definition move_lane :: "player \<Rightarrow> int \<Rightarrow> player" where
  "move_lane p direction =
     (let new_lane = lane p + direction in
      if 0 \<le> new_lane \<and> new_lane < LANE_COUNT
      then p\<lparr>lane := new_lane, target_x := of_int (LANES ! nat new_lane)\<rparr>
      else p)"

definition jump :: "(nat \<Rightarrow> real \<times> real) \<Rightarrow> player \<Rightarrow> particle list \<Rightarrow> player \<times> particle list" where
  "jump jit p ps =
     (if on_ground p then
        (p\<lparr>vel_y := JUMP_VEL, on_ground := False, sliding := False, slide_timer := 0,
           double_jump := True\<rparr>,
         spawn_particles jit (pl_x p) (pl_y p) CYAN 6 5 ps)
      else if double_jump p then
        (p\<lparr>vel_y := JUMP_VEL * 0.85, double_jump := False\<rparr>,
         spawn_particles jit (pl_x p) (pl_y p - of_int (P_HEIGHT div 2)) YELLOW 10 5 ps)
      else (p, ps))"

definition slide :: "player \<Rightarrow> player" where
  "slide p =
     (if on_ground p \<and> \<not> sliding p then p\<lparr>sliding := True, slide_timer := 35\<rparr> else p)"

text \<open>\<open>Player.update\<close>, one block of the source after the other.\<close>

definition update_horizontal :: "player \<Rightarrow> player" where
  "update_horizontal p = p\<lparr>pl_x := pl_x p + (target_x p - pl_x p) * 0.22\<rparr>"

definition update_gravity ::
  "(nat \<Rightarrow> real \<times> real) \<Rightarrow> player \<Rightarrow> particle list \<Rightarrow> player \<times> particle list" where
  "update_gravity jit p ps =
     (if \<not> on_ground p then
        (let v = vel_y p + GRAVITY; y = pl_y p + v in
         if y \<ge> of_int GROUND_Y then
           (p\<lparr>vel_y := 0, pl_y := of_int GROUND_Y, on_ground := True\<rparr>,
            spawn_particles jit (pl_x p) (of_int GROUND_Y) LIGHT_GRAY 5 3 ps)
         else (p\<lparr>vel_y := v, pl_y := y\<rparr>, ps))
      else (p, ps))"

definition update_slide_timer :: "player \<Rightarrow> player" where
  "update_slide_timer p =
     (if sliding p then
        (let t = slide_timer p - 1 in
         if t \<le> 0 then p\<lparr>slide_timer := t, sliding := False\<rparr> else p\<lparr>slide_timer := t\<rparr>)
      else p)"

definition update_invincible :: "player \<Rightarrow> player" where
  "update_invincible p =
     (if invincible p > 0 then p\<lparr>invincible := invincible p - 1\<rparr> else p)"

definition update_animation :: "player \<Rightarrow> player" where
  "update_animation p =
     (let t = anim_timer p + 1 in
      if t \<ge> 8 then p\<lparr>anim_timer := 0, anim_frame := (anim_frame p + 1) mod 4\<rparr>
      else p\<lparr>anim_timer := t\<rparr>)"

definition Player_update ::
  "(nat \<Rightarrow> real \<times> real) \<Rightarrow> player \<Rightarrow> particle list \<Rightarrow> player \<times> particle list" where
  "Player_update jit p ps =
     (let (p1, ps1) = update_gravity jit (update_horizontal p) ps in
      (update_animation (update_invincible (update_slide_timer p1)), ps1))"

subsection \<open>Obstacles\<close>

datatype obstacle_kind = Barrier | Train | Pole | Gap

record obstacle =
  ob_lane :: int
  ob_x :: int
  ob_y :: real
  ob_speed :: real
  ob_kind :: obstacle_kind
  ob_w :: int
  ob_h :: int
  ob_color :: color

text \<open>
  \<open>Obstacle.__init__\<close>: \<open>ln0\<close> is \<open>random.randint(0, LANE_COUNT-1)\<close>, \<open>kind_roll\<close> is
  \<open>random.random()\<close>, \<open>gap_rand\<close> is \<open>random.randint(20, 100)\<close>.
\<close>

definition Obstacle :: "real \<Rightarrow> int \<Rightarrow> real \<Rightarrow> int \<Rightarrow> obstacle" where
  "Obstacle spd ln0 kind_roll gap_rand =
     (let o0 = \<lparr>ob_lane = ln0, ob_x = LANES ! nat ln0, ob_y = - 50, ob_speed = spd,
                ob_kind = Barrier, ob_w = 48, ob_h = 28, ob_color = RED\<rparr> in
      if kind_roll < 0.35 then o0
      else if kind_roll < 0.6 then o0\<lparr>ob_kind := Train, ob_w := 44, ob_h := 90, ob_color := GRAY\<rparr>
      else if kind_roll < 0.80 then o0\<lparr>ob_kind := Pole, ob_w := 16, ob_h := 60, ob_color := YELLOW\<rparr>
      else o0\<lparr>ob_kind := Gap, ob_w := 36, ob_h := 36, ob_color := BROWN,
              ob_y := - of_int (GROUND_Y - 80 - gap_rand)\<rparr>)"

definition Obstacle_rect :: "obstacle \<Rightarrow> rect" where
  "Obstacle_rect ob =
     (let gy = (if ob_kind ob \<noteq> Gap then GROUND_Y - ob_h ob else GROUND_Y - 80 - 40) in
      Rect (of_int (ob_x ob - ob_w ob div 2))
           (of_int (py_int (if ob_y ob < 0 then ob_y ob + of_int gy
                            else ob_y ob - of_int (ob_h ob))))
           (ob_w ob) (ob_h ob))"

definition Obstacle_update :: "obstacle \<Rightarrow> obstacle" where
  "Obstacle_update ob = ob\<lparr>ob_y := ob_y ob + ob_speed ob\<rparr>"

definition Obstacle_is_off_screen :: "obstacle \<Rightarrow> bool" where
  "Obstacle_is_off_screen ob = (ob_y ob > of_int (HEIGHT + 100))"

subsection \<open>Coins\<close>

record coin =
  co_lane :: int
  co_x :: real
  y_offset :: int
  co_y :: real
  co_speed :: real
  co_collected :: bool
  co_anim :: int
  special :: bool

definition RADIUS :: int where "RADIUS = 10"

text \<open>
  \<open>Coin.__init__\<close>: \<open>ln0\<close> is the lane drawn, \<open>yo\<close> the element of \<open>heights\<close> chosen,
  \<open>an\<close> is \<open>random.randint(0, 30)\<close> and \<open>roll\<close> is \<open>random.random()\<close>.
\<close>

definition Coin :: "real \<Rightarrow> int \<times> int \<times> int \<times> real \<Rightarrow> coin" where
  "Coin spd d =
     (case d of (ln0, yo, an, roll) \<Rightarrow>
        \<lparr>co_lane = ln0, co_x = of_int (LANES ! nat ln0), y_offset = yo, co_y = - 20,
         co_speed = spd, co_collected = False, co_anim = an, special = (roll < 0.08)\<rparr>)"

definition Coin_rect :: "coin \<Rightarrow> rect" where
  "Coin_rect c =
     (let gy = GROUND_Y + y_offset c - RADIUS in
      Rect (co_x c - of_int RADIUS) (of_int (py_int (co_y c + of_int gy)))
           (RADIUS * 2) (RADIUS * 2))"

definition Coin_update :: "coin \<Rightarrow> coin" where
  "Coin_update c = c\<lparr>co_y := co_y c + co_speed c, co_anim := co_anim c + 1\<rparr>"

definition Coin_is_off_screen :: "coin \<Rightarrow> bool" where
  "Coin_is_off_screen c = (co_y c > of_int (HEIGHT + 50))"

subsection \<open>Power-ups\<close>

datatype powerup_kind = Magnet | Shield | Boost

record powerup =
  pu_lane :: int
  pu_x :: int
  pu_y :: real
  pu_speed :: real
  pu_kind :: powerup_kind
  pu_anim :: int
  pu_collected :: bool

text \<open>The dictionary \<open>self.colors\<close> is the same for every power-up.\<close>

fun colors :: "powerup_kind \<Rightarrow> color" where
  "colors Magnet = PURPLE"
| "colors Shield = CYAN"
| "colors Boost = ORANGE"

definition Powerup :: "real \<Rightarrow> int \<times> powerup_kind \<Rightarrow> powerup" where
  "Powerup spd d =
     \<lparr>pu_lane = fst d, pu_x = LANES ! nat (fst d), pu_y = - 20, pu_speed = spd,
      pu_kind = snd d, pu_anim = 0, pu_collected = False\<rparr>"

definition Powerup_rect :: "powerup \<Rightarrow> rect" where
  "Powerup_rect pu =
     (let gy = GROUND_Y - 60 in
      Rect (of_int (pu_x pu - 16)) (of_int (py_int (pu_y pu + of_int gy))) 32 32)"

definition Powerup_update :: "powerup \<Rightarrow> powerup" where
  "Powerup_update pu = pu\<lparr>pu_y := pu_y pu + pu_speed pu, pu_anim := pu_anim pu + 1\<rparr>"

definition Powerup_is_off_screen :: "powerup \<Rightarrow> bool" where
  "Powerup_is_off_screen pu = (pu_y pu > of_int (HEIGHT + 50))"

subsection \<open>The session state of \<open>main\<close>\<close>

text \<open>
  The local variables of \<open>main\<close> that the inner loop reads and writes, the two scroll
  offsets of \<open>Background\<close>, and the module-level list \<open>particles\<close>.
\<close>

record game =
  bg_scroll :: real
  bg_rail_scroll :: real
  player :: player
  obstacles :: "obstacle list"
  coins_list :: "coin list"
  powerups :: "powerup list"
  particles :: "particle list"
  score :: real
  coins_collected :: int
  lives :: int
  speed :: real
  spawn_timer :: int
  coin_timer :: int
  powerup_timer_spawn :: int
  paused :: bool
  game_over :: bool
  powerup_active :: "powerup_kind option"
  powerup_timer :: int
  hi_score :: real
  running :: bool

definition magnet_range :: real where "magnet_range = 150"

text \<open>The block \<open>Game setup\<close>: \<open>hi_score\<close> and \<open>particles\<close> outlive a session.\<close>

definition game_setup :: "real \<Rightarrow> particle list \<Rightarrow> game" where
  "game_setup hi ps =
     \<lparr>bg_scroll = 0, bg_rail_scroll = 0, player = Player, obstacles = [], coins_list = [],
      powerups = [], particles = ps, score = 0.0, coins_collected = 0, lives = 3,
      speed = 6.0, spawn_timer = 0, coin_timer = 0, powerup_timer_spawn = 0,
      paused = False, game_over = False, powerup_active = None, powerup_timer = 0,
      hi_score = hi, running = True\<rparr>"

text \<open>The random draws of one frame.\<close>

record rnd =
  obstacle_draw :: "int \<times> real \<times> int"
  coin_draws :: "(int \<times> int \<times> int \<times> real) list"
  powerup_draw :: "int \<times> powerup_kind"
  particle_draws :: "nat \<Rightarrow> real \<times> real"

datatype key =
  K_ESCAPE | K_p | K_LEFT | K_a | K_RIGHT | K_d | K_UP | K_w | K_SPACE | K_DOWN | K_s
| K_RETURN | K_other

datatype event = QUIT | KEYDOWN key | OTHER_EVENT

datatype frame_result = SysExit | Raised py_error | Next game

subsection \<open>Events\<close>

definition handle_keydown :: "(nat \<Rightarrow> real \<times> real) \<Rightarrow> key \<Rightarrow> game \<Rightarrow> frame_result" where
  "handle_keydown jit k g =
     (if k = K_ESCAPE then Next (g\<lparr>running := False\<rparr>)
      else if k = K_p then Next (g\<lparr>paused := \<not> paused g\<rparr>)
      else if \<not> paused g \<and> \<not> game_over g then
        (if k = K_LEFT \<or> k = K_a then Next (g\<lparr>player := move_lane (player g) (- 1)\<rparr>)
         else if k = K_RIGHT \<or> k = K_d then Next (g\<lparr>player := move_lane (player g) 1\<rparr>)
         else if k = K_UP \<or> k = K_w \<or> k = K_SPACE then
           (case jump jit (player g) (particles g) of
              (p, ps) \<Rightarrow> Next (g\<lparr>player := p, particles := ps\<rparr>))
         else if k = K_DOWN \<or> k = K_s then Next (g\<lparr>player := slide (player g)\<rparr>)
         else Next g)
      else if game_over g then
        (if k = K_SPACE then Next (g\<lparr>running := False\<rparr>)
         else if k = K_ESCAPE then SysExit
         else Next g)
      else Next g)"

fun handle_event :: "(nat \<Rightarrow> real \<times> real) \<Rightarrow> event \<Rightarrow> game \<Rightarrow> frame_result" where
  "handle_event jit QUIT g = SysExit"
| "handle_event jit (KEYDOWN k) g = handle_keydown jit k g"
| "handle_event jit OTHER_EVENT g = Next g"

fun handle_events :: "(nat \<Rightarrow> real \<times> real) \<Rightarrow> event list \<Rightarrow> game \<Rightarrow> frame_result" where
  "handle_events jit [] g = Next g"
| "handle_events jit (e # es) g =
     (case handle_event jit e g of
        Next g' \<Rightarrow> handle_events jit es g'
      | r \<Rightarrow> r)"

subsection \<open>One running step, block by block\<close>

definition speed_ramp :: "real \<Rightarrow> powerup_kind option \<Rightarrow> real" where
  "speed_ramp sc pa =
     (let spd = 6.0 + (sc / 500) * 2.0;
          spd = min spd 18.0
      in if pa = Some Boost then min (spd * 1.5) 24.0 else spd)"

definition spawn_obstacles :: "rnd \<Rightarrow> game \<Rightarrow> game" where
  "spawn_obstacles r g =
     (let t = spawn_timer g + 1;
          interval = max 55 (95 - py_int (score g / 300))
      in if t \<ge> interval
         then g\<lparr>spawn_timer := 0,
                obstacles := obstacles g @
                  [case obstacle_draw r of (l, kr, gr) \<Rightarrow> Obstacle (speed g) l kr gr]\<rparr>
         else g\<lparr>spawn_timer := t\<rparr>)"

definition spawn_coins :: "rnd \<Rightarrow> game \<Rightarrow> game" where
  "spawn_coins r g =
     (let t = coin_timer g + 1
      in if t \<ge> 25
         then g\<lparr>coin_timer := 0, coins_list := coins_list g @ map (Coin (speed g)) (coin_draws r)\<rparr>
         else g\<lparr>coin_timer := t\<rparr>)"

definition spawn_powerups :: "rnd \<Rightarrow> game \<Rightarrow> game" where
  "spawn_powerups r g =
     (let t = powerup_timer_spawn g + 1
      in if t \<ge> 360
         then g\<lparr>powerup_timer_spawn := 0,
                powerups := powerups g @ [Powerup (speed g) (powerup_draw r)]\<rparr>
         else g\<lparr>powerup_timer_spawn := t\<rparr>)"

definition Background_update :: "real \<Rightarrow> game \<Rightarrow> game" where
  "Background_update spd g =
     g\<lparr>bg_scroll := py_fmod (bg_scroll g + spd * 0.4) (of_int HEIGHT),
       bg_rail_scroll := py_fmod (bg_rail_scroll g + spd) 60\<rparr>"

definition update_player :: "rnd \<Rightarrow> game \<Rightarrow> game" where
  "update_player r g =
     (case Player_update (particle_draws r) (player g) (particles g) of
        (p, ps) \<Rightarrow> g\<lparr>player := p, particles := ps\<rparr>)"

text \<open>
  The three loops \<open>for e in es[:]: e.speed = speed; e.update(); if e.is_off_screen():
  es.remove(e)\<close>.
\<close>

definition update_obstacles :: "real \<Rightarrow> obstacle list \<Rightarrow> obstacle list" where
  "update_obstacles spd obs =
     filter (\<lambda>ob. \<not> Obstacle_is_off_screen ob)
       (map (\<lambda>ob. Obstacle_update (ob\<lparr>ob_speed := spd\<rparr>)) obs)"

definition update_coins :: "real \<Rightarrow> coin list \<Rightarrow> coin list" where
  "update_coins spd cs =
     filter (\<lambda>c. \<not> Coin_is_off_screen c) (map (\<lambda>c. Coin_update (c\<lparr>co_speed := spd\<rparr>)) cs)"

definition update_powerups :: "real \<Rightarrow> powerup list \<Rightarrow> powerup list" where
  "update_powerups spd pus =
     filter (\<lambda>pu. \<not> Powerup_is_off_screen pu)
       (map (\<lambda>pu. Powerup_update (pu\<lparr>pu_speed := spd\<rparr>)) pus)"

definition update_entities :: "game \<Rightarrow> game" where
  "update_entities g =
     g\<lparr>obstacles := update_obstacles (speed g) (obstacles g),
       coins_list := update_coins (speed g) (coins_list g),
       powerups := update_powerups (speed g) (powerups g)\<rparr>"

text \<open>The body of the magnet loop for one coin; the two divisions can raise.\<close>

definition magnet_coin :: "player \<Rightarrow> real \<Rightarrow> coin \<Rightarrow> py_error + coin" where
  "magnet_coin pl spd c =
     (if \<not> co_collected c then
        (let cr = Coin_rect c;
             pr = Player_rect pl;
             dx = centerx pr - centerx cr;
             dy = centery pr - centery cr;
             dist = hypot (of_int dx) (of_int dy)
         in if dist < magnet_range \<and> dist > 1 then
              (case py_truediv (of_int dx) dist of
                 Inl e \<Rightarrow> Inl e
               | Inr qx \<Rightarrow>
                   (case py_truediv (of_int dy) dist of
                      Inl e \<Rightarrow> Inl e
                    | Inr qy \<Rightarrow>
                        Inr (c\<lparr>co_x := co_x c + qx * 5, co_y := co_y c + (qy * 5 - spd)\<rparr>)))
            else Inr c)
      else Inr c)"

fun magnet_loop :: "player \<Rightarrow> real \<Rightarrow> coin list \<Rightarrow> py_error + coin list" where
  "magnet_loop pl spd [] = Inr []"
| "magnet_loop pl spd (c # cs) =
     (case magnet_coin pl spd c of
        Inl e \<Rightarrow> Inl e
      | Inr c' \<Rightarrow> (case magnet_loop pl spd cs of Inl e \<Rightarrow> Inl e | Inr cs' \<Rightarrow> Inr (c' # cs')))"

definition magnet :: "game \<Rightarrow> py_error + game" where
  "magnet g =
     (if powerup_active g = Some Magnet then
        (case magnet_loop (player g) (speed g) (coins_list g) of
           Inl e \<Rightarrow> Inl e
         | Inr cs \<Rightarrow> Inr (g\<lparr>coins_list := cs\<rparr>))
      else Inr g)"

text \<open>
  Collisions with coins. The loop changes the coin it visits, the two counters and the
  particles; it returns the coins in their order and the state.
\<close>

fun collide_coins :: "(nat \<Rightarrow> real \<times> real) \<Rightarrow> coin list \<Rightarrow> game \<Rightarrow> coin list \<times> game" where
  "collide_coins jit [] g = ([], g)"
| "collide_coins jit (c # cs) g =
     (if \<not> co_collected c \<and> colliderect (Player_rect (player g)) (Coin_rect c) then
        (let cc = coins_collected g + width (Coin_rect c) div 10;
             val = (if special c then 5 else 1);
             cc = cc + (val - 1);
             g' = g\<lparr>coins_collected := cc, score := score g + of_int (10 * val),
                    particles := spawn_particles jit (of_int (centerx (Coin_rect c)))
                                   (of_int (centery (Coin_rect c))) GOLD 6 5 (particles g)\<rparr>
         in case collide_coins jit cs g' of
              (cs', g'') \<Rightarrow> (c\<lparr>co_collected := True\<rparr> # cs', g''))
      else (case collide_coins jit cs g of (cs', g'') \<Rightarrow> (c # cs', g'')))"

definition collisions_coins :: "rnd \<Rightarrow> game \<Rightarrow> game" where
  "collisions_coins r g =
     (case collide_coins (particle_draws r) (coins_list g) g of
        (cs, g') \<Rightarrow> g'\<lparr>coins_list := cs\<rparr>)"

fun collide_powerups ::
  "(nat \<Rightarrow> real \<times> real) \<Rightarrow> powerup list \<Rightarrow> game \<Rightarrow> powerup list \<times> game" where
  "collide_powerups jit [] g = ([], g)"
| "collide_powerups jit (pu # pus) g =
     (if \<not> pu_collected pu \<and> colliderect (Player_rect (player g)) (Powerup_rect pu) then
        (let g' = g\<lparr>powerup_active := Some (pu_kind pu), powerup_timer := 300,
                    particles := spawn_particles jit (of_int (centerx (Powerup_rect pu)))
                                   (of_int (centery (Powerup_rect pu))) (colors (pu_kind pu))
                                   12 6 (particles g)\<rparr>
         in case collide_powerups jit pus g' of
              (pus', g'') \<Rightarrow> (pu\<lparr>pu_collected := True\<rparr> # pus', g''))
      else (case collide_powerups jit pus g of (pus', g'') \<Rightarrow> (pu # pus', g'')))"

definition collisions_powerups :: "rnd \<Rightarrow> game \<Rightarrow> game" where
  "collisions_powerups r g =
     (case collide_powerups (particle_draws r) (powerups g) g of
        (pus, g') \<Rightarrow> g'\<lparr>powerups := pus\<rparr>)"

definition powerup_countdown :: "game \<Rightarrow> game" where
  "powerup_countdown g =
     (if powerup_timer g > 0 then
        (let t = powerup_timer g - 1
         in if t = 0 then g\<lparr>powerup_timer := t, powerup_active := None\<rparr>
            else g\<lparr>powerup_timer := t\<rparr>)
      else g)"

text \<open>
  Collisions with obstacles. The loop returns the obstacles that stay in the list, in
  their order: all but those visited in the shield branch.
\<close>

fun collide_obstacles ::
  "(nat \<Rightarrow> real \<times> real) \<Rightarrow> obstacle list \<Rightarrow> game \<Rightarrow> obstacle list \<times> game" where
  "collide_obstacles jit [] g = ([], g)"
| "collide_obstacles jit (ob # obs) g =
     (if invincible (player g) = 0 \<and> colliderect (Player_rect (player g)) (Obstacle_rect ob) then
        (if powerup_active g = Some Shield then
           collide_obstacles jit obs
             (g\<lparr>powerup_active := None, powerup_timer := 0,
                player := (player g)\<lparr>invincible := 90\<rparr>,
                particles := spawn_particles jit (pl_x (player g)) (pl_y (player g) - 30)
                               CYAN 15 7 (particles g)\<rparr>)
         else
           (let l = lives g - 1;
                g' = g\<lparr>lives := l, player := (player g)\<lparr>invincible := 90\<rparr>,
                       particles := spawn_particles jit (pl_x (player g)) (pl_y (player g) - 30)
                                      RED 12 7 (particles g)\<rparr>;
                g' = (if l \<le> 0 then g'\<lparr>game_over := True, hi_score := max (hi_score g) (score g)\<rparr>
                      else g')
            in case collide_obstacles jit obs g' of (obs', g'') \<Rightarrow> (ob # obs', g'')))
      else (case collide_obstacles jit obs g of (obs', g'') \<Rightarrow> (ob # obs', g'')))"

definition collisions_obstacles :: "rnd \<Rightarrow> game \<Rightarrow> game" where
  "collisions_obstacles r g =
     (case collide_obstacles (particle_draws r) (obstacles g) g of
        (obs, g') \<Rightarrow> g'\<lparr>obstacles := obs\<rparr>)"

definition accrue_score :: "game \<Rightarrow> game" where
  "accrue_score g = g\<lparr>score := score g + speed g * 0.05\<rparr>"

definition update_particles :: "game \<Rightarrow> game" where
  "update_particles g =
     g\<lparr>particles := filter (\<lambda>p. \<not> life p \<le> 0) (map Particle_update (particles g))\<rparr>"

text \<open>
  The body of the inner loop below the \<open>continue\<close> of the paused and ended states, in
  three parts: the blocks from \<open>Speed ramp\<close> to \<open>Update\<close> (\<open>advance\<close>), the block
  \<open>Magnet\<close>, and the blocks from \<open>Collisions: coins\<close> to \<open>Update particles\<close> (\<open>resolve\<close>):
  the pick-ups with the countdown, the obstacle block, and the blocks \<open>Score\<close> and
  \<open>Update particles\<close>.
\<close>

definition advance :: "rnd \<Rightarrow> game \<Rightarrow> game" where
  "advance r g =
     (let g = g\<lparr>speed := speed_ramp (score g) (powerup_active g)\<rparr>;
          g = spawn_obstacles r g;
          g = spawn_coins r g;
          g = spawn_powerups r g;
          g = Background_update (speed g) g;
          g = update_player r g
      in update_entities g)"

definition pickups :: "rnd \<Rightarrow> game \<Rightarrow> game" where
  "pickups r g =
     (let g = collisions_coins r g;
          g = collisions_powerups r g
      in powerup_countdown g)"

definition finish :: "game \<Rightarrow> game" where
  "finish g = update_particles (accrue_score g)"

definition resolve :: "rnd \<Rightarrow> game \<Rightarrow> game" where
  "resolve r g = finish (collisions_obstacles r (pickups r g))"

definition run_step :: "rnd \<Rightarrow> game \<Rightarrow> frame_result" where
  "run_step r g =
     (case magnet (advance r g) of
        Inl e \<Rightarrow> Raised e
      | Inr g' \<Rightarrow> Next (resolve r g'))"

text \<open>One pass of \<open>while running\<close>: the events, then the step unless paused or ended.\<close>

definition frame :: "event list \<times> rnd \<Rightarrow> game \<Rightarrow> frame_result" where
  "frame inp g =
     (case handle_events (particle_draws (snd inp)) (fst inp) g of
        Next g' \<Rightarrow> (if paused g' \<or> game_over g' then Next g' else run_step (snd inp) g')
      | r \<Rightarrow> r)"

text \<open>The inner loop over the inputs of successive frames; it ends when \<open>running\<close> is false.\<close>

fun frames :: "(event list \<times> rnd) list \<Rightarrow> game \<Rightarrow> frame_result" where
  "frames [] g = Next g"
| "frames (inp # inps) g =
     (if \<not> running g then Next g
      else (case frame inp g of
              Next g' \<Rightarrow> frames inps g'
            | r \<Rightarrow> r))"

subsection \<open>Concrete inputs\<close>

text \<open>Draws for one frame, and a few states on which the results below are evaluated.\<close>

definition rnd0 :: rnd where
  "rnd0 = \<lparr>obstacle_draw = (1, 0.5, 20), coin_draws = [(1, 0, 0, 0.5)],
           powerup_draw = (1, Shield), particle_draws = (\<lambda>n. (0, - 1))\<rparr>"

text \<open>A coin in lane \<open>l\<close> on the ground tier at scroll position \<open>y\<close>.\<close>

definition coin_at :: "int \<Rightarrow> real \<Rightarrow> bool \<Rightarrow> bool \<Rightarrow> coin" where
  "coin_at l y sp col =
     \<lparr>co_lane = l, co_x = of_int (LANES ! nat l), y_offset = 0, co_y = y, co_speed = 6,
      co_collected = col, co_anim = 0, special = sp\<rparr>"

definition game_coins :: game where
  "game_coins =
     (game_setup 0 [])\<lparr>coins_list :=
       [coin_at 1 (- 30) False False, coin_at 1 (- 20) True False,
        coin_at 0 (- 30) False False, coin_at 1 (- 25) False True]\<rparr>"

text \<open>An obstacle of kind \<open>k\<close>, with the size of its kind, in lane \<open>l\<close> at scroll position \<open>y\<close>.\<close>

definition obstacle_at :: "obstacle_kind \<Rightarrow> int \<Rightarrow> real \<Rightarrow> obstacle" where
  "obstacle_at k l y =
     \<lparr>ob_lane = l, ob_x = LANES ! nat l, ob_y = y, ob_speed = 6, ob_kind = k,
      ob_w = (case k of Barrier \<Rightarrow> 48 | Train \<Rightarrow> 44 | Pole \<Rightarrow> 16 | Gap \<Rightarrow> 36),
      ob_h = (case k of Barrier \<Rightarrow> 28 | Train \<Rightarrow> 90 | Pole \<Rightarrow> 60 | Gap \<Rightarrow> 36),
      ob_color = (case k of Barrier \<Rightarrow> RED | Train \<Rightarrow> GRAY | Pole \<Rightarrow> YELLOW | Gap \<Rightarrow> BROWN)\<rparr>"

text \<open>
  Three obstacles: a barrier in the left lane, and in the player's lane a barrier that has
  come down to the player and a train that has just been spawned.
\<close>

definition game_obstacles :: game where
  "game_obstacles =
     (game_setup 0 [])\<lparr>obstacles :=
       [obstacle_at Barrier 0 300, obstacle_at Barrier 1 560, obstacle_at Train 1 (- 20)]\<rparr>"

definition game_shield :: game where
  "game_shield = game_obstacles\<lparr>powerup_active := Some Shield, powerup_timer := 100\<rparr>"

text \<open>A power-up of kind \<open>k\<close> in lane \<open>l\<close> at scroll position \<open>y\<close>.\<close>

definition powerup_at :: "int \<Rightarrow> real \<Rightarrow> powerup_kind \<Rightarrow> powerup" where
  "powerup_at l y k =
     \<lparr>pu_lane = l, pu_x = LANES ! nat l, pu_y = y, pu_speed = 6, pu_kind = k, pu_anim = 0,
      pu_collected = False\<rparr>"

definition game_powerup :: game where
  "game_powerup = (game_setup 0 [])\<lparr>powerups := [powerup_at 1 14 Shield]\<rparr>"

text \<open>A session that has ended: no lives left.\<close>

definition game_ended :: game where
  "game_ended = (game_setup 0 [])\<lparr>lives := 0, game_over := True\<rparr>"

text \<open>
  \<open>n\<close> successive calls of \<open>player.update()\<close>, as \<open>n\<close> running steps make them when no
  event comes in between.
\<close>

fun Player_updates ::
  "(nat \<Rightarrow> real \<times> real) \<Rightarrow> nat \<Rightarrow> player \<times> particle list \<Rightarrow> player \<times> particle list" where
  "Player_updates jit 0 s = s"
| "Player_updates jit (Suc n) s =
     (case Player_updates jit n s of (p, ps) \<Rightarrow> Player_update jit p ps)"

text \<open>
  The body \<open>obs.speed = speed; obs.update()\<close> of the obstacle loop, run for one obstacle
  with the speeds of successive running steps.
\<close>

fun Obstacle_updates :: "real list \<Rightarrow> obstacle \<Rightarrow> obstacle" where
  "Obstacle_updates [] ob = ob"
| "Obstacle_updates (s # ss) ob = Obstacle_updates ss (Obstacle_update (ob\<lparr>ob_speed := s\<rparr>))"


section \<open>Auxiliary facts\<close>

lemmas consts_defs =
  WIDTH_def HEIGHT_def LANES_def LANE_COUNT_def GROUND_Y_def P_WIDTH_def P_HEIGHT_def
  JUMP_VEL_def GRAVITY_def RADIUS_def magnet_range_def

lemma py_int_of_int [simp]: "py_int (of_int z) = z"
  by (simp add: py_int_def)

lemma py_int_numeral [simp]: "py_int (numeral n) = numeral n"
  by (simp add: py_int_def)

lemma py_int_of_int_diff [simp]: "py_int (of_int a - numeral n) = a - numeral n"
  by (metis of_int_diff of_int_numeral py_int_of_int)

subsection \<open>The fields that the straight-line blocks leave alone\<close>

lemma spawn_obstacles_fields [simp]:
  "bg_scroll (spawn_obstacles r g) = bg_scroll g"
  "bg_rail_scroll (spawn_obstacles r g) = bg_rail_scroll g"
  "player (spawn_obstacles r g) = player g"
  "coins_list (spawn_obstacles r g) = coins_list g"
  "powerups (spawn_obstacles r g) = powerups g"
  "particles (spawn_obstacles r g) = particles g"
  "score (spawn_obstacles r g) = score g"
  "coins_collected (spawn_obstacles r g) = coins_collected g"
  "lives (spawn_obstacles r g) = lives g"
  "speed (spawn_obstacles r g) = speed g"
  "coin_timer (spawn_obstacles r g) = coin_timer g"
  "powerup_timer_spawn (spawn_obstacles r g) = powerup_timer_spawn g"
  "paused (spawn_obstacles r g) = paused g"
  "game_over (spawn_obstacles r g) = game_over g"
  "powerup_active (spawn_obstacles r g) = powerup_active g"
  "powerup_timer (spawn_obstacles r g) = powerup_timer g"
  "hi_score (spawn_obstacles r g) = hi_score g"
  "running (spawn_obstacles r g) = running g"
  by (simp_all add: spawn_obstacles_def Let_def)

lemma spawn_coins_fields [simp]:
  "bg_scroll (spawn_coins r g) = bg_scroll g"
  "bg_rail_scroll (spawn_coins r g) = bg_rail_scroll g"
  "player (spawn_coins r g) = player g"
  "obstacles (spawn_coins r g) = obstacles g"
  "powerups (spawn_coins r g) = powerups g"
  "particles (spawn_coins r g) = particles g"
  "score (spawn_coins r g) = score g"
  "coins_collected (spawn_coins r g) = coins_collected g"
  "lives (spawn_coins r g) = lives g"
  "speed (spawn_coins r g) = speed g"
  "spawn_timer (spawn_coins r g) = spawn_timer g"
  "powerup_timer_spawn (spawn_coins r g) = powerup_timer_spawn g"
  "paused (spawn_coins r g) = paused g"
  "game_over (spawn_coins r g) = game_over g"
  "powerup_active (spawn_coins r g) = powerup_active g"
  "powerup_timer (spawn_coins r g) = powerup_timer g"
  "hi_score (spawn_coins r g) = hi_score g"
  "running (spawn_coins r g) = running g"
  by (simp_all add: spawn_coins_def Let_def)

lemma spawn_powerups_fields [simp]:
  "bg_scroll (spawn_powerups r g) = bg_scroll g"
  "bg_rail_scroll (spawn_powerups r g) = bg_rail_scroll g"
  "player (spawn_powerups r g) = player g"
  "obstacles (spawn_powerups r g) = obstacles g"
  "coins_list (spawn_powerups r g) = coins_list g"
  "particles (spawn_powerups r g) = particles g"
  "score (spawn_powerups r g) = score g"
  "coins_collected (spawn_powerups r g) = coins_collected g"
  "lives (spawn_powerups r g) = lives g"
  "speed (spawn_powerups r g) = speed g"
  "spawn_timer (spawn_powerups r g) = spawn_timer g"
  "coin_timer (spawn_powerups r g) = coin_timer g"
  "paused (spawn_powerups r g) = paused g"
  "game_over (spawn_powerups r g) = game_over g"
  "powerup_active (spawn_powerups r g) = powerup_active g"
  "powerup_timer (spawn_powerups r g) = powerup_timer g"
  "hi_score (spawn_powerups r g) = hi_score g"
  "running (spawn_powerups r g) = running g"
  by (simp_all add: spawn_powerups_def Let_def)

lemma Background_update_fields [simp]:
  "player (Background_update s g) = player g"
  "obstacles (Background_update s g) = obstacles g"
  "coins_list (Background_update s g) = coins_list g"
  "powerups (Background_update s g) = powerups g"
  "particles (Background_update s g) = particles g"
  "score (Background_update s g) = score g"
  "coins_collected (Background_update s g) = coins_collected g"
  "lives (Background_update s g) = lives g"
  "speed (Background_update s g) = speed g"
  "spawn_timer (Background_update s g) = spawn_timer g"
  "coin_timer (Background_update s g) = coin_timer g"
  "powerup_timer_spawn (Background_update s g) = powerup_timer_spawn g"
  "paused (Background_update s g) = paused g"
  "game_over (Background_update s g) = game_over g"
  "powerup_active (Background_update s g) = powerup_active g"
  "powerup_timer (Background_update s g) = powerup_timer g"
  "hi_score (Background_update s g) = hi_score g"
  "running (Background_update s g) = running g"
  by (simp_all add: Background_update_def)

lemma update_player_fields [simp]:
  "bg_scroll (update_player r g) = bg_scroll g"
  "bg_rail_scroll (update_player r g) = bg_rail_scroll g"
  "obstacles (update_player r g) = obstacles g"
  "coins_list (update_player r g) = coins_list g"
  "powerups (update_player r g) = powerups g"
  "score (update_player r g) = score g"
  "coins_collected (update_player r g) = coins_collected g"
  "lives (update_player r g) = lives g"
  "speed (update_player r g) = speed g"
  "spawn_timer (update_player r g) = spawn_timer g"
  "coin_timer (update_player r g) = coin_timer g"
  "powerup_timer_spawn (update_player r g) = powerup_timer_spawn g"
  "paused (update_player r g) = paused g"
  "game_over (update_player r g) = game_over g"
  "powerup_active (update_player r g) = powerup_active g"
  "powerup_timer (update_player r g) = powerup_timer g"
  "hi_score (update_player r g) = hi_score g"
  "running (update_player r g) = running g"
  by (simp_all add: update_player_def case_prod_unfold)

lemma update_entities_fields [simp]:
  "bg_scroll (update_entities g) = bg_scroll g"
  "bg_rail_scroll (update_entities g) = bg_rail_scroll g"
  "player (update_entities g) = player g"
  "particles (update_entities g) = particles g"
  "score (update_entities g) = score g"
  "coins_collected (update_entities g) = coins_collected g"
  "lives (update_entities g) = lives g"
  "speed (update_entities g) = speed g"
  "spawn_timer (update_entities g) = spawn_timer g"
  "coin_timer (update_entities g) = coin_timer g"
  "powerup_timer_spawn (update_entities g) = powerup_timer_spawn g"
  "paused (update_entities g) = paused g"
  "game_over (update_entities g) = game_over g"
  "powerup_active (update_entities g) = powerup_active g"
  "powerup_timer (update_entities g) = powerup_timer g"
  "hi_score (update_entities g) = hi_score g"
  "running (update_entities g) = running g"
  by (simp_all add: update_entities_def)

lemma powerup_countdown_fields [simp]:
  "bg_scroll (powerup_countdown g) = bg_scroll g"
  "bg_rail_scroll (powerup_countdown g) = bg_rail_scroll g"
  "player (powerup_countdown g) = player g"
  "obstacles (powerup_countdown g) = obstacles g"
  "coins_list (powerup_countdown g) = coins_list g"
  "powerups (powerup_countdown g) = powerups g"
  "particles (powerup_countdown g) = particles g"
  "score (powerup_countdown g) = score g"
  "coins_collected (powerup_countdown g) = coins_collected g"
  "lives (powerup_countdown g) = lives g"
  "speed (powerup_countdown g) = speed g"
  "spawn_timer (powerup_countdown g) = spawn_timer g"
  "coin_timer (powerup_countdown g) = coin_timer g"
  "powerup_timer_spawn (powerup_countdown g) = powerup_timer_spawn g"
  "paused (powerup_countdown g) = paused g"
  "game_over (powerup_countdown g) = game_over g"
  "hi_score (powerup_countdown g) = hi_score g"
  "running (powerup_countdown g) = running g"
  by (simp_all add: powerup_countdown_def Let_def)

lemma accrue_score_fields [simp]:
  "bg_scroll (accrue_score g) = bg_scroll g"
  "bg_rail_scroll (accrue_score g) = bg_rail_scroll g"
  "player (accrue_score g) = player g"
  "obstacles (accrue_score g) = obstacles g"
  "coins_list (accrue_score g) = coins_list g"
  "powerups (accrue_score g) = powerups g"
  "particles (accrue_score g) = particles g"
  "coins_collected (accrue_score g) = coins_collected g"
  "lives (accrue_score g) = lives g"
  "speed (accrue_score g) = speed g"
  "spawn_timer (accrue_score g) = spawn_timer g"
  "coin_timer (accrue_score g) = coin_timer g"
  "powerup_timer_spawn (accrue_score g) = powerup_timer_spawn g"
  "paused (accrue_score g) = paused g"
  "game_over (accrue_score g) = game_over g"
  "powerup_active (accrue_score g) = powerup_active g"
  "powerup_timer (accrue_score g) = powerup_timer g"
  "hi_score (accrue_score g) = hi_score g"
  "running (accrue_score g) = running g"
  by (simp_all add: accrue_score_def)

lemma update_particles_fields [simp]:
  "bg_scroll (update_particles g) = bg_scroll g"
  "bg_rail_scroll (update_particles g) = bg_rail_scroll g"
  "player (update_particles g) = player g"
  "obstacles (update_particles g) = obstacles g"
  "coins_list (update_particles g) = coins_list g"
  "powerups (update_particles g) = powerups g"
  "score (update_particles g) = score g"
  "coins_collected (update_particles g) = coins_collected g"
  "lives (update_particles g) = lives g"
  "speed (update_particles g) = speed g"
  "spawn_timer (update_particles g) = spawn_timer g"
  "coin_timer (update_particles g) = coin_timer g"
  "powerup_timer_spawn (update_particles g) = powerup_timer_spawn g"
  "paused (update_particles g) = paused g"
  "game_over (update_particles g) = game_over g"
  "powerup_active (update_particles g) = powerup_active g"
  "powerup_timer (update_particles g) = powerup_timer g"
  "hi_score (update_particles g) = hi_score g"
  "running (update_particles g) = running g"
  by (simp_all add: update_particles_def)


subsection \<open>The coin loop\<close>

lemma collide_coins_miss:
  "co_collected c \<or> \<not> colliderect (Player_rect (player g)) (Coin_rect c) \<Longrightarrow>
   collide_coins jit (c # cs) g = (c # fst (collide_coins jit cs g), snd (collide_coins jit cs g))"
  by (cases "co_collected c"; cases "colliderect (Player_rect (player g)) (Coin_rect c)";
      simp add: case_prod_unfold)

lemma collide_coins_hit:
  "\<not> co_collected c \<Longrightarrow> colliderect (Player_rect (player g)) (Coin_rect c) \<Longrightarrow>
   g1 = g\<lparr>coins_collected := coins_collected g + width (Coin_rect c) div 10
                               + ((if special c then 5 else 1) - 1),
          score := score g + of_int (10 * (if special c then 5 else 1)),
          particles := spawn_particles jit (of_int (centerx (Coin_rect c)))
                         (of_int (centery (Coin_rect c))) GOLD 6 5 (particles g)\<rparr> \<Longrightarrow>
   collide_coins jit (c # cs) g =
     (c\<lparr>co_collected := True\<rparr> # fst (collide_coins jit cs g1), snd (collide_coins jit cs g1))"
  by (simp add: case_prod_unfold Let_def)

lemma collide_coins_frame:
  "\<exists>cc sc ps. snd (collide_coins jit cs g) =
     g\<lparr>coins_collected := cc, score := sc, particles := ps\<rparr>"
proof (induction cs arbitrary: g)
  case Nil
  have "g = g\<lparr>coins_collected := coins_collected g, score := score g, particles := particles g\<rparr>"
    by simp
  then show ?case by (metis collide_coins.simps(1) snd_conv)
next
  case (Cons c cs)
  show ?case
  proof (cases "\<not> co_collected c \<and> colliderect (Player_rect (player g)) (Coin_rect c)")
    case True
    define g1 where
      "g1 = g\<lparr>coins_collected := coins_collected g + width (Coin_rect c) div 10
                                   + ((if special c then 5 else 1) - 1),
              score := score g + of_int (10 * (if special c then 5 else 1)),
              particles := spawn_particles jit (of_int (centerx (Coin_rect c)))
                             (of_int (centery (Coin_rect c))) GOLD 6 5 (particles g)\<rparr>"
    have eq: "snd (collide_coins jit (c # cs) g) = snd (collide_coins jit cs g1)"
      using True collide_coins_hit [of c g g1 jit cs] by (simp add: g1_def)
    from Cons.IH [of g1] obtain cc sc ps where
      "snd (collide_coins jit cs g1) = g1\<lparr>coins_collected := cc, score := sc, particles := ps\<rparr>"
      by blast
    then have "snd (collide_coins jit (c # cs) g) =
                 g\<lparr>coins_collected := cc, score := sc, particles := ps\<rparr>"
      using eq by (simp add: g1_def)
    then show ?thesis by blast
  next
    case False
    then have "snd (collide_coins jit (c # cs) g) = snd (collide_coins jit cs g)"
      using collide_coins_miss [of c g jit cs] by auto
    then show ?thesis using Cons.IH [of g] by simp
  qed
qed

lemma collide_coins_player [simp]: "player (snd (collide_coins jit cs g)) = player g"
  using collide_coins_frame [of jit cs g] by auto

lemma collisions_coins_fields [simp]:
  "bg_scroll (collisions_coins r g) = bg_scroll g"
  "bg_rail_scroll (collisions_coins r g) = bg_rail_scroll g"
  "player (collisions_coins r g) = player g"
  "obstacles (collisions_coins r g) = obstacles g"
  "powerups (collisions_coins r g) = powerups g"
  "lives (collisions_coins r g) = lives g"
  "speed (collisions_coins r g) = speed g"
  "spawn_timer (collisions_coins r g) = spawn_timer g"
  "coin_timer (collisions_coins r g) = coin_timer g"
  "powerup_timer_spawn (collisions_coins r g) = powerup_timer_spawn g"
  "paused (collisions_coins r g) = paused g"
  "game_over (collisions_coins r g) = game_over g"
  "powerup_active (collisions_coins r g) = powerup_active g"
  "powerup_timer (collisions_coins r g) = powerup_timer g"
  "hi_score (collisions_coins r g) = hi_score g"
  "running (collisions_coins r g) = running g"
  using collide_coins_frame [of "particle_draws r" "coins_list g" g]
  by (auto simp add: collisions_coins_def case_prod_unfold)

lemma collide_coins_result:
  "fst (collide_coins jit cs g) =
     map (\<lambda>c. if \<not> co_collected c \<and> colliderect (Player_rect (player g)) (Coin_rect c)
               then c\<lparr>co_collected := True\<rparr> else c) cs \<and>
   score (snd (collide_coins jit cs g)) =
     score g + (\<Sum>c\<leftarrow>filter (\<lambda>c. \<not> co_collected c \<and>
                    colliderect (Player_rect (player g)) (Coin_rect c)) cs.
                  of_int (10 * (if special c then 5 else 1))) \<and>
   coins_collected (snd (collide_coins jit cs g)) =
     coins_collected g + (\<Sum>c\<leftarrow>filter (\<lambda>c. \<not> co_collected c \<and>
                    colliderect (Player_rect (player g)) (Coin_rect c)) cs.
                  width (Coin_rect c) div 10 + ((if special c then 5 else 1) - 1))"
proof (induction cs arbitrary: g)
  case Nil
  show ?case by simp
next
  case (Cons c cs)
  show ?case
  proof (cases "\<not> co_collected c \<and> colliderect (Player_rect (player g)) (Coin_rect c)")
    case True
    define g1 where
      "g1 = g\<lparr>coins_collected := coins_collected g + width (Coin_rect c) div 10
                                   + ((if special c then 5 else 1) - 1),
              score := score g + of_int (10 * (if special c then 5 else 1)),
              particles := spawn_particles jit (of_int (centerx (Coin_rect c)))
                             (of_int (centery (Coin_rect c))) GOLD 6 5 (particles g)\<rparr>"
    have eq: "collide_coins jit (c # cs) g =
                (c\<lparr>co_collected := True\<rparr> # fst (collide_coins jit cs g1),
                 snd (collide_coins jit cs g1))"
      using True collide_coins_hit [of c g g1 jit cs] by (simp add: g1_def)
    have pl: "player g1 = player g" and sc: "score g1 = score g + of_int (10 * (if special c then 5 else 1))"
      and cc: "coins_collected g1 = coins_collected g + width (Coin_rect c) div 10
                                   + ((if special c then 5 else 1) - 1)"
      by (simp_all add: g1_def)
    show ?thesis
      using Cons.IH [of g1] True unfolding eq pl sc cc by simp
  next
    case False
    then have eq: "collide_coins jit (c # cs) g =
                (c # fst (collide_coins jit cs g), snd (collide_coins jit cs g))"
      using collide_coins_miss [of c g jit cs] by auto
    show ?thesis
      using Cons.IH [of g] False unfolding eq by auto
  qed
qed


subsection \<open>The power-up loop\<close>

lemma collide_powerups_miss:
  "pu_collected pu \<or> \<not> colliderect (Player_rect (player g)) (Powerup_rect pu) \<Longrightarrow>
   collide_powerups jit (pu # pus) g =
     (pu # fst (collide_powerups jit pus g), snd (collide_powerups jit pus g))"
  by (cases "pu_collected pu"; cases "colliderect (Player_rect (player g)) (Powerup_rect pu)";
      simp add: case_prod_unfold)

lemma collide_powerups_hit:
  "\<not> pu_collected pu \<Longrightarrow> colliderect (Player_rect (player g)) (Powerup_rect pu) \<Longrightarrow>
   g1 = g\<lparr>powerup_active := Some (pu_kind pu), powerup_timer := 300,
          particles := spawn_particles jit (of_int (centerx (Powerup_rect pu)))
                         (of_int (centery (Powerup_rect pu))) (colors (pu_kind pu))
                         12 6 (particles g)\<rparr> \<Longrightarrow>
   collide_powerups jit (pu # pus) g =
     (pu\<lparr>pu_collected := True\<rparr> # fst (collide_powerups jit pus g1),
      snd (collide_powerups jit pus g1))"
  by (simp add: case_prod_unfold Let_def)

lemma collide_powerups_frame:
  "\<exists>a t ps. snd (collide_powerups jit pus g) =
     g\<lparr>powerup_active := a, powerup_timer := t, particles := ps\<rparr>"
proof (induction pus arbitrary: g)
  case Nil
  have "g = g\<lparr>powerup_active := powerup_active g, powerup_timer := powerup_timer g,
              particles := particles g\<rparr>"
    by simp
  then show ?case by (metis collide_powerups.simps(1) snd_conv)
next
  case (Cons pu pus)
  show ?case
  proof (cases "\<not> pu_collected pu \<and> colliderect (Player_rect (player g)) (Powerup_rect pu)")
    case True
    define g1 where
      "g1 = g\<lparr>powerup_active := Some (pu_kind pu), powerup_timer := 300,
              particles := spawn_particles jit (of_int (centerx (Powerup_rect pu)))
                             (of_int (centery (Powerup_rect pu))) (colors (pu_kind pu))
                             12 6 (particles g)\<rparr>"
    have eq: "snd (collide_powerups jit (pu # pus) g) = snd (collide_powerups jit pus g1)"
      using True collide_powerups_hit [of pu g g1 jit pus] by (simp add: g1_def)
    from Cons.IH [of g1] obtain a t ps where
      "snd (collide_powerups jit pus g1) =
         g1\<lparr>powerup_active := a, powerup_timer := t, particles := ps\<rparr>"
      by blast
    then have "snd (collide_powerups jit (pu # pus) g) =
                 g\<lparr>powerup_active := a, powerup_timer := t, particles := ps\<rparr>"
      using eq by (simp add: g1_def)
    then show ?thesis by blast
  next
    case False
    then have "snd (collide_powerups jit (pu # pus) g) = snd (collide_powerups jit pus g)"
      using collide_powerups_miss [of pu g jit pus] by auto
    then show ?thesis using Cons.IH [of g] by simp
  qed
qed

lemma collide_powerups_player [simp]: "player (snd (collide_powerups jit pus g)) = player g"
  using collide_powerups_frame [of jit pus g] by auto

lemma collisions_powerups_fields [simp]:
  "bg_scroll (collisions_powerups r g) = bg_scroll g"
  "bg_rail_scroll (collisions_powerups r g) = bg_rail_scroll g"
  "player (collisions_powerups r g) = player g"
  "obstacles (collisions_powerups r g) = obstacles g"
  "coins_list (collisions_powerups r g) = coins_list g"
  "score (collisions_powerups r g) = score g"
  "coins_collected (collisions_powerups r g) = coins_collected g"
  "lives (collisions_powerups r g) = lives g"
  "speed (collisions_powerups r g) = speed g"
  "spawn_timer (collisions_powerups r g) = spawn_timer g"
  "coin_timer (collisions_powerups r g) = coin_timer g"
  "powerup_timer_spawn (collisions_powerups r g) = powerup_timer_spawn g"
  "paused (collisions_powerups r g) = paused g"
  "game_over (collisions_powerups r g) = game_over g"
  "hi_score (collisions_powerups r g) = hi_score g"
  "running (collisions_powerups r g) = running g"
  using collide_powerups_frame [of "particle_draws r" "powerups g" g]
  by (auto simp add: collisions_powerups_def case_prod_unfold)

lemma collide_powerups_list:
  "fst (collide_powerups jit pus g) =
     map (\<lambda>pu. if \<not> pu_collected pu \<and> colliderect (Player_rect (player g)) (Powerup_rect pu)
                then pu\<lparr>pu_collected := True\<rparr> else pu) pus"
proof (induction pus arbitrary: g)
  case Nil
  show ?case by simp
next
  case (Cons pu pus)
  show ?case
  proof (cases "\<not> pu_collected pu \<and> colliderect (Player_rect (player g)) (Powerup_rect pu)")
    case True
    define g1 where
      "g1 = g\<lparr>powerup_active := Some (pu_kind pu), powerup_timer := 300,
              particles := spawn_particles jit (of_int (centerx (Powerup_rect pu)))
                             (of_int (centery (Powerup_rect pu))) (colors (pu_kind pu))
                             12 6 (particles g)\<rparr>"
    have eq: "collide_powerups jit (pu # pus) g =
                (pu\<lparr>pu_collected := True\<rparr> # fst (collide_powerups jit pus g1),
                 snd (collide_powerups jit pus g1))"
      using True collide_powerups_hit [of pu g g1 jit pus] by (simp add: g1_def)
    have pl: "player g1 = player g"
      by (simp add: g1_def)
    show ?thesis
      using Cons.IH [of g1] True unfolding eq pl by simp
  next
    case False
    then have eq: "collide_powerups jit (pu # pus) g =
                (pu # fst (collide_powerups jit pus g), snd (collide_powerups jit pus g))"
      using collide_powerups_miss [of pu g jit pus] by auto
    show ?thesis
      using Cons.IH [of g] False unfolding eq by auto
  qed
qed

subsection \<open>The obstacle loop\<close>

lemma collide_obstacles_skip:
  "invincible (player g) \<noteq> 0 \<or> \<not> colliderect (Player_rect (player g)) (Obstacle_rect ob) \<Longrightarrow>
   collide_obstacles jit (ob # obs) g =
     (ob # fst (collide_obstacles jit obs g), snd (collide_obstacles jit obs g))"
  by (cases "invincible (player g) = 0";
      cases "colliderect (Player_rect (player g)) (Obstacle_rect ob)";
      simp add: case_prod_unfold)

lemma collide_obstacles_shield:
  "invincible (player g) = 0 \<Longrightarrow> colliderect (Player_rect (player g)) (Obstacle_rect ob) \<Longrightarrow>
   powerup_active g = Some Shield \<Longrightarrow>
   collide_obstacles jit (ob # obs) g =
     collide_obstacles jit obs
       (g\<lparr>powerup_active := None, powerup_timer := 0,
          player := (player g)\<lparr>invincible := 90\<rparr>,
          particles := spawn_particles jit (pl_x (player g)) (pl_y (player g) - 30)
                         CYAN 15 7 (particles g)\<rparr>)"
  by simp

lemma collide_obstacles_hit:
  "invincible (player g) = 0 \<Longrightarrow> colliderect (Player_rect (player g)) (Obstacle_rect ob) \<Longrightarrow>
   powerup_active g \<noteq> Some Shield \<Longrightarrow>
   g1 = g\<lparr>lives := lives g - 1, player := (player g)\<lparr>invincible := 90\<rparr>,
          particles := spawn_particles jit (pl_x (player g)) (pl_y (player g) - 30)
                         RED 12 7 (particles g),
          game_over := (if lives g - 1 \<le> 0 then True else game_over g),
          hi_score := (if lives g - 1 \<le> 0 then max (hi_score g) (score g) else hi_score g)\<rparr> \<Longrightarrow>
   collide_obstacles jit (ob # obs) g =
     (ob # fst (collide_obstacles jit obs g1), snd (collide_obstacles jit obs g1))"
  by (simp add: case_prod_unfold Let_def)

lemma collide_obstacles_invincible:
  "invincible (player g) \<noteq> 0 \<Longrightarrow> collide_obstacles jit obs g = (obs, g)"
proof (induction obs)
  case Nil
  show ?case by simp
next
  case (Cons ob obs)
  then show ?case
    using collide_obstacles_skip [of g ob jit obs] by simp
qed

lemma collide_obstacles_first_shield:
  assumes "invincible (player g) = 0" and "powerup_active g = Some Shield"
    and "\<forall>x\<in>set pre. \<not> colliderect (Player_rect (player g)) (Obstacle_rect x)"
    and "colliderect (Player_rect (player g)) (Obstacle_rect ob)"
  shows "collide_obstacles jit (pre @ ob # post) g =
           (pre @ post,
            g\<lparr>powerup_active := None, powerup_timer := 0,
              player := (player g)\<lparr>invincible := 90\<rparr>,
              particles := spawn_particles jit (pl_x (player g)) (pl_y (player g) - 30)
                             CYAN 15 7 (particles g)\<rparr>)"
  using assms(3)
proof (induction pre)
  case Nil
  show ?case
    using collide_obstacles_shield [OF assms(1) assms(4) assms(2), of jit post]
    by (simp add: collide_obstacles_invincible)
next
  case (Cons p pre)
  then show ?case
    using collide_obstacles_skip [of g p jit "pre @ ob # post"] by simp
qed

lemma collide_obstacles_first_hit:
  assumes "invincible (player g) = 0" and "powerup_active g \<noteq> Some Shield"
    and "\<forall>x\<in>set pre. \<not> colliderect (Player_rect (player g)) (Obstacle_rect x)"
    and "colliderect (Player_rect (player g)) (Obstacle_rect ob)"
  shows "collide_obstacles jit (pre @ ob # post) g =
           (pre @ ob # post,
            g\<lparr>lives := lives g - 1, player := (player g)\<lparr>invincible := 90\<rparr>,
              particles := spawn_particles jit (pl_x (player g)) (pl_y (player g) - 30)
                             RED 12 7 (particles g),
              game_over := (if lives g - 1 \<le> 0 then True else game_over g),
              hi_score := (if lives g - 1 \<le> 0 then max (hi_score g) (score g)
                           else hi_score g)\<rparr>)"
  using assms(3)
proof (induction pre)
  case Nil
  show ?case
    using collide_obstacles_hit [OF assms(1) assms(4) assms(2) refl, of jit post]
    by (simp add: collide_obstacles_invincible)
next
  case (Cons p pre)
  then show ?case
    using collide_obstacles_skip [of g p jit "pre @ ob # post"] by simp
qed

lemma collide_obstacles_none:
  "\<forall>x\<in>set obs. \<not> colliderect (Player_rect (player g)) (Obstacle_rect x) \<Longrightarrow>
   collide_obstacles jit obs g = (obs, g)"
proof (induction obs)
  case Nil
  show ?case by simp
next
  case (Cons ob obs)
  then show ?case
    using collide_obstacles_skip [of g ob jit obs] by simp
qed

text \<open>The three outcomes of the loop.\<close>

lemma collide_obstacles_cases:
  "collide_obstacles jit obs g = (obs, g) \<or>
   (\<exists>pre ob post. obs = pre @ ob # post \<and> invincible (player g) = 0 \<and>
      powerup_active g = Some Shield \<and>
      collide_obstacles jit obs g =
        (pre @ post,
         g\<lparr>powerup_active := None, powerup_timer := 0,
           player := (player g)\<lparr>invincible := 90\<rparr>,
           particles := spawn_particles jit (pl_x (player g)) (pl_y (player g) - 30)
                          CYAN 15 7 (particles g)\<rparr>)) \<or>
   (invincible (player g) = 0 \<and> powerup_active g \<noteq> Some Shield \<and>
      collide_obstacles jit obs g =
        (obs,
         g\<lparr>lives := lives g - 1, player := (player g)\<lparr>invincible := 90\<rparr>,
           particles := spawn_particles jit (pl_x (player g)) (pl_y (player g) - 30)
                          RED 12 7 (particles g),
           game_over := (if lives g - 1 \<le> 0 then True else game_over g),
           hi_score := (if lives g - 1 \<le> 0 then max (hi_score g) (score g)
                        else hi_score g)\<rparr>))"
proof (cases "invincible (player g) = 0 \<and>
    (\<exists>ob\<in>set obs. colliderect (Player_rect (player g)) (Obstacle_rect ob))")
  case False
  then have "collide_obstacles jit obs g = (obs, g)"
    using collide_obstacles_invincible [of g jit obs] collide_obstacles_none [of obs g jit]
    by blast
  then show ?thesis by simp
next
  case True
  then obtain pre ob post where sp: "obs = pre @ ob # post"
    and hit: "colliderect (Player_rect (player g)) (Obstacle_rect ob)"
    and first: "\<forall>x\<in>set pre. \<not> colliderect (Player_rect (player g)) (Obstacle_rect x)"
    using split_list_first_prop [of obs "\<lambda>ob. colliderect (Player_rect (player g)) (Obstacle_rect ob)"]
    by blast
  from True have inv: "invincible (player g) = 0" by simp
  show ?thesis
  proof (cases "powerup_active g = Some Shield")
    case True
    show ?thesis
      using collide_obstacles_first_shield [OF inv True first hit, of jit post] sp inv True
      by blast
  next
    case False
    show ?thesis
      using collide_obstacles_first_hit [OF inv False first hit, of jit post] sp inv False
      by simp
  qed
qed

lemma collide_obstacles_frame:
  "\<exists>a t i ps l go hs. snd (collide_obstacles jit obs g) =
     g\<lparr>powerup_active := a, powerup_timer := t, player := (player g)\<lparr>invincible := i\<rparr>,
       particles := ps, lives := l, game_over := go, hi_score := hs\<rparr>"
proof -
  have "g = g\<lparr>powerup_active := powerup_active g, powerup_timer := powerup_timer g,
              player := (player g)\<lparr>invincible := invincible (player g)\<rparr>,
              particles := particles g, lives := lives g, game_over := game_over g,
              hi_score := hi_score g\<rparr>"
    by simp
  moreover have
    "g\<lparr>powerup_active := None, powerup_timer := 0,
           player := (player g)\<lparr>invincible := 90\<rparr>,
           particles := ps\<rparr> =
     g\<lparr>powerup_active := None, powerup_timer := 0, player := (player g)\<lparr>invincible := 90\<rparr>,
       particles := ps, lives := lives g, game_over := game_over g,
       hi_score := hi_score g\<rparr>" for ps
    by simp
  moreover have
    "g\<lparr>lives := l, player := (player g)\<lparr>invincible := 90\<rparr>, particles := ps,
       game_over := go, hi_score := hs\<rparr> =
     g\<lparr>powerup_active := powerup_active g, powerup_timer := powerup_timer g,
       player := (player g)\<lparr>invincible := 90\<rparr>,
       particles := ps, lives := l, game_over := go, hi_score := hs\<rparr>" for l ps go hs
    by simp
  ultimately show ?thesis
    using collide_obstacles_cases [of jit obs g] by (metis snd_conv)
qed

lemma collisions_obstacles_fields [simp]:
  "bg_scroll (collisions_obstacles r g) = bg_scroll g"
  "bg_rail_scroll (collisions_obstacles r g) = bg_rail_scroll g"
  "coins_list (collisions_obstacles r g) = coins_list g"
  "powerups (collisions_obstacles r g) = powerups g"
  "score (collisions_obstacles r g) = score g"
  "coins_collected (collisions_obstacles r g) = coins_collected g"
  "speed (collisions_obstacles r g) = speed g"
  "spawn_timer (collisions_obstacles r g) = spawn_timer g"
  "coin_timer (collisions_obstacles r g) = coin_timer g"
  "powerup_timer_spawn (collisions_obstacles r g) = powerup_timer_spawn g"
  "paused (collisions_obstacles r g) = paused g"
  "running (collisions_obstacles r g) = running g"
  using collide_obstacles_frame [of "particle_draws r" "obstacles g" g]
  by (auto simp add: collisions_obstacles_def case_prod_unfold)

lemma collisions_obstacles_player:
  "\<exists>i. player (collisions_obstacles r g) = (player g)\<lparr>invincible := i\<rparr>"
  using collide_obstacles_frame [of "particle_draws r" "obstacles g" g]
  by (auto simp add: collisions_obstacles_def case_prod_unfold)

lemma collisions_obstacles_rect [simp]:
  "Player_rect (player (collisions_obstacles r g)) = Player_rect (player g)"
  using collisions_obstacles_player [of r g] by (auto simp add: Player_rect_def)


subsection \<open>The magnet\<close>

lemma hypot_ge_snd: "b \<le> hypot a b"
  unfolding hypot_def using real_sqrt_sum_squares_ge2 [of b a] by (simp add: power2_eq_square)

lemma hypot_0 [simp]: "hypot 0 b = \<bar>b\<bar>"
  by (simp add: hypot_def)

lemma magnet_coin_eq:
  "magnet_coin pl spd c =
     Inr (if \<not> co_collected c \<and>
             hypot (of_int (centerx (Player_rect pl) - centerx (Coin_rect c)))
                   (of_int (centery (Player_rect pl) - centery (Coin_rect c))) < magnet_range \<and>
             hypot (of_int (centerx (Player_rect pl) - centerx (Coin_rect c)))
                   (of_int (centery (Player_rect pl) - centery (Coin_rect c))) > 1
          then c\<lparr>co_x := co_x c +
                    of_int (centerx (Player_rect pl) - centerx (Coin_rect c)) /
                    hypot (of_int (centerx (Player_rect pl) - centerx (Coin_rect c)))
                          (of_int (centery (Player_rect pl) - centery (Coin_rect c))) * 5,
                 co_y := co_y c +
                    (of_int (centery (Player_rect pl) - centery (Coin_rect c)) /
                     hypot (of_int (centerx (Player_rect pl) - centerx (Coin_rect c)))
                           (of_int (centery (Player_rect pl) - centery (Coin_rect c))) * 5 - spd)\<rparr>
          else c)"
  by (simp add: magnet_coin_def Let_def py_truediv_def)

lemma magnet_coin_y:
  assumes "magnet_coin pl spd c = Inr c'" and "5 \<le> spd"
  shows "co_y c' \<le> co_y c"
proof -
  define dx :: real where "dx = of_int (centerx (Player_rect pl) - centerx (Coin_rect c))"
  define dy :: real where "dy = of_int (centery (Player_rect pl) - centery (Coin_rect c))"
  have "dy / hypot dx dy \<le> 1" if "hypot dx dy > 1"
    using that hypot_ge_snd [of dy dx] by (simp add: divide_le_eq)
  then have "dy / hypot dx dy * 5 - spd \<le> 0" if "hypot dx dy > 1"
  proof -
    have "dy / hypot dx dy \<le> 1" using \<open>1 < hypot dx dy \<Longrightarrow> dy / hypot dx dy \<le> 1\<close> that .
    then have "dy / hypot dx dy * 5 \<le> 1 * 5"
      by (rule mult_right_mono) simp
    then show ?thesis using assms(2) by simp
  qed
  then show ?thesis
    using assms(1) unfolding magnet_coin_eq dx_def dy_def
    by (auto split: if_splits)
qed

lemma magnet_loop_Inr:
  "\<exists>cs'. magnet_loop pl spd cs = Inr cs' \<and>
          list_all2 (\<lambda>c c'. magnet_coin pl spd c = Inr c') cs cs'"
proof (induction cs)
  case Nil
  show ?case by simp
next
  case (Cons c cs)
  then obtain cs' where "magnet_loop pl spd cs = Inr cs'"
    and "list_all2 (\<lambda>c c'. magnet_coin pl spd c = Inr c') cs cs'"
    by blast
  moreover obtain c' where "magnet_coin pl spd c = Inr c'"
    using magnet_coin_eq [of pl spd c] by blast
  ultimately show ?case by simp
qed

lemma magnet_Inr:
  "\<exists>cs'. magnet g = Inr (g\<lparr>coins_list := cs'\<rparr>) \<and>
          list_all2 (\<lambda>c c'. c' = c \<or> magnet_coin (player g) (speed g) c = Inr c')
            (coins_list g) cs'"
proof (cases "powerup_active g = Some Magnet")
  case True
  obtain cs' where "magnet_loop (player g) (speed g) (coins_list g) = Inr cs'"
    and "list_all2 (\<lambda>c c'. magnet_coin (player g) (speed g) c = Inr c') (coins_list g) cs'"
    using magnet_loop_Inr by blast
  then have "magnet g = Inr (g\<lparr>coins_list := cs'\<rparr>)"
    and "list_all2 (\<lambda>c c'. c' = c \<or> magnet_coin (player g) (speed g) c = Inr c')
           (coins_list g) cs'"
    using True by (simp_all add: magnet_def list_all2_mono)
  then show ?thesis by blast
next
  case False
  have "magnet g = Inr (g\<lparr>coins_list := coins_list g\<rparr>)"
    using False by (simp add: magnet_def)
  moreover have "list_all2 (\<lambda>c c'. c' = c \<or> magnet_coin (player g) (speed g) c = Inr c')
           (coins_list g) (coins_list g)"
    by (simp add: list_all2_same)
  ultimately show ?thesis by blast
qed

lemma magnet_fields [simp]:
  "bg_scroll (projr (magnet g)) = bg_scroll g"
  "bg_rail_scroll (projr (magnet g)) = bg_rail_scroll g"
  "player (projr (magnet g)) = player g"
  "obstacles (projr (magnet g)) = obstacles g"
  "powerups (projr (magnet g)) = powerups g"
  "particles (projr (magnet g)) = particles g"
  "score (projr (magnet g)) = score g"
  "coins_collected (projr (magnet g)) = coins_collected g"
  "lives (projr (magnet g)) = lives g"
  "speed (projr (magnet g)) = speed g"
  "spawn_timer (projr (magnet g)) = spawn_timer g"
  "coin_timer (projr (magnet g)) = coin_timer g"
  "powerup_timer_spawn (projr (magnet g)) = powerup_timer_spawn g"
  "paused (projr (magnet g)) = paused g"
  "game_over (projr (magnet g)) = game_over g"
  "powerup_active (projr (magnet g)) = powerup_active g"
  "powerup_timer (projr (magnet g)) = powerup_timer g"
  "hi_score (projr (magnet g)) = hi_score g"
  "running (projr (magnet g)) = running g"
  using magnet_Inr [of g] by auto

lemma magnet_projr: "magnet g = Inr (projr (magnet g))"
  using magnet_Inr [of g] by auto

subsection \<open>The step\<close>

lemma advance_fields [simp]:
  "score (advance r g) = score g"
  "coins_collected (advance r g) = coins_collected g"
  "lives (advance r g) = lives g"
  "paused (advance r g) = paused g"
  "game_over (advance r g) = game_over g"
  "powerup_active (advance r g) = powerup_active g"
  "powerup_timer (advance r g) = powerup_timer g"
  "hi_score (advance r g) = hi_score g"
  "running (advance r g) = running g"
  "speed (advance r g) = speed_ramp (score g) (powerup_active g)"
  "player (advance r g) = fst (Player_update (particle_draws r) (player g) (particles g))"
  by (simp_all add: advance_def Let_def update_player_def case_prod_unfold)

lemma advance_lists:
  "obstacles (advance r g) =
     update_obstacles (speed_ramp (score g) (powerup_active g))
       (obstacles (spawn_obstacles r (g\<lparr>speed := speed_ramp (score g) (powerup_active g)\<rparr>)))"
  "coins_list (advance r g) =
     update_coins (speed_ramp (score g) (powerup_active g))
       (coins_list (spawn_coins r (g\<lparr>speed := speed_ramp (score g) (powerup_active g)\<rparr>)))"
  "powerups (advance r g) =
     update_powerups (speed_ramp (score g) (powerup_active g))
       (powerups (spawn_powerups r (g\<lparr>speed := speed_ramp (score g) (powerup_active g)\<rparr>)))"
  by (simp_all add: advance_def Let_def update_entities_def spawn_obstacles_def spawn_coins_def
      spawn_powerups_def)

lemma pickups_fields [simp]:
  "bg_scroll (pickups r g) = bg_scroll g"
  "bg_rail_scroll (pickups r g) = bg_rail_scroll g"
  "player (pickups r g) = player g"
  "obstacles (pickups r g) = obstacles g"
  "lives (pickups r g) = lives g"
  "speed (pickups r g) = speed g"
  "spawn_timer (pickups r g) = spawn_timer g"
  "coin_timer (pickups r g) = coin_timer g"
  "powerup_timer_spawn (pickups r g) = powerup_timer_spawn g"
  "paused (pickups r g) = paused g"
  "game_over (pickups r g) = game_over g"
  "hi_score (pickups r g) = hi_score g"
  "running (pickups r g) = running g"
  by (simp_all add: pickups_def Let_def)

lemma finish_fields [simp]:
  "bg_scroll (finish g) = bg_scroll g"
  "bg_rail_scroll (finish g) = bg_rail_scroll g"
  "player (finish g) = player g"
  "obstacles (finish g) = obstacles g"
  "coins_list (finish g) = coins_list g"
  "powerups (finish g) = powerups g"
  "coins_collected (finish g) = coins_collected g"
  "lives (finish g) = lives g"
  "speed (finish g) = speed g"
  "spawn_timer (finish g) = spawn_timer g"
  "coin_timer (finish g) = coin_timer g"
  "powerup_timer_spawn (finish g) = powerup_timer_spawn g"
  "paused (finish g) = paused g"
  "game_over (finish g) = game_over g"
  "powerup_active (finish g) = powerup_active g"
  "powerup_timer (finish g) = powerup_timer g"
  "hi_score (finish g) = hi_score g"
  "running (finish g) = running g"
  by (simp_all add: finish_def)

lemma resolve_fields [simp]:
  "bg_scroll (resolve r g) = bg_scroll g"
  "bg_rail_scroll (resolve r g) = bg_rail_scroll g"
  "speed (resolve r g) = speed g"
  "spawn_timer (resolve r g) = spawn_timer g"
  "coin_timer (resolve r g) = coin_timer g"
  "powerup_timer_spawn (resolve r g) = powerup_timer_spawn g"
  "paused (resolve r g) = paused g"
  "running (resolve r g) = running g"
  by (simp_all add: resolve_def)

lemma run_step_blocks:
  "magnet (advance r g) = Inr m \<Longrightarrow>
   run_step r g = Next (finish (collisions_obstacles r (pickups r m)))"
  by (simp add: run_step_def resolve_def)

lemma run_step_Next: "run_step r g = Next (resolve r (projr (magnet (advance r g))))"
proof -
  obtain g' where "magnet (advance r g) = Inr g'"
    using magnet_projr by blast
  then show ?thesis by (simp add: run_step_def)
qed

subsection \<open>The player and the events\<close>

lemma Player_update_invincible:
  "invincible (fst (Player_update jit p ps)) =
     (if invincible p > 0 then invincible p - 1 else invincible p)"
  by (simp add: Player_update_def case_prod_unfold update_animation_def update_invincible_def
      update_slide_timer_def update_gravity_def update_horizontal_def Let_def)

lemma jump_invincible [simp]: "invincible (fst (jump jit p ps)) = invincible p"
  by (simp add: jump_def)

lemma move_lane_invincible [simp]: "invincible (move_lane p d) = invincible p"
  by (simp add: move_lane_def Let_def)

lemma slide_invincible [simp]: "invincible (slide p) = invincible p"
  by (simp add: slide_def)

text \<open>An event changes at most the player, the particles and the two flags.\<close>

lemma handle_keydown_frame:
  assumes "handle_keydown jit k g = Next g'"
  shows "g'\<lparr>player := player g, particles := particles g, paused := paused g,
            running := running g\<rparr> = g \<and>
         invincible (player g') = invincible (player g)"
  using assms
  by (auto simp add: handle_keydown_def case_prod_unfold split: if_splits)

lemma handle_event_frame:
  assumes "handle_event jit e g = Next g'"
  shows "g'\<lparr>player := player g, particles := particles g, paused := paused g,
            running := running g\<rparr> = g \<and>
         invincible (player g') = invincible (player g)"
  using assms handle_keydown_frame [of jit _ g g'] by (cases e) auto

lemma handle_events_frame:
  assumes "handle_events jit es g = Next g'"
  shows "g'\<lparr>player := player g, particles := particles g, paused := paused g,
            running := running g\<rparr> = g \<and>
         invincible (player g') = invincible (player g)"
  using assms
proof (induction es arbitrary: g)
  case Nil
  then show ?case by simp
next
  case (Cons e es)
  from Cons.prems obtain g1 where e1: "handle_event jit e g = Next g1"
    and e2: "handle_events jit es g1 = Next g'"
    by (auto split: frame_result.splits)
  note f1 = handle_event_frame [OF e1]
  note f2 = Cons.IH [OF e2]
  have "g'\<lparr>player := player g, particles := particles g, paused := paused g,
           running := running g\<rparr> =
        (g'\<lparr>player := player g1, particles := particles g1, paused := paused g1,
            running := running g1\<rparr>)\<lparr>player := player g, particles := particles g,
            paused := paused g, running := running g\<rparr>"
    by simp
  also have "\<dots> = g1\<lparr>player := player g, particles := particles g, paused := paused g,
            running := running g\<rparr>"
    using f2 by simp
  also have "\<dots> = g"
    using f1 by simp
  finally show ?case
    using f1 f2 by simp
qed

lemma handle_events_lives:
  assumes "handle_events jit es g = Next g'"
  shows "lives g' = lives g \<and> game_over g' = game_over g"
proof -
  have eq: "g'\<lparr>player := player g, particles := particles g, paused := paused g,
              running := running g\<rparr> = g"
    using handle_events_frame [OF assms] by simp
  have "lives (g'\<lparr>player := player g, particles := particles g, paused := paused g,
              running := running g\<rparr>) = lives g"
    and "game_over (g'\<lparr>player := player g, particles := particles g, paused := paused g,
              running := running g\<rparr>) = game_over g"
    by (simp_all only: eq)
  then show ?thesis by simp
qed

subsection \<open>Lives and invincibility over frames\<close>

lemma resolve_invincible:
  assumes "invincible (player g) \<noteq> 0"
  shows "lives (resolve r g) = lives g \<and> player (resolve r g) = player g \<and>
         game_over (resolve r g) = game_over g \<and> obstacles (resolve r g) = obstacles g"
proof -
  define h where "h = pickups r g"
  have "player h = player g" and l: "lives h = lives g" and go: "game_over h = game_over g"
    and ob: "obstacles h = obstacles g"
    by (simp_all add: h_def)
  then have "collide_obstacles (particle_draws r) (obstacles h) h = (obstacles h, h)"
    using assms collide_obstacles_invincible by simp
  then have "collisions_obstacles r h = h"
    by (simp add: collisions_obstacles_def)
  then have "resolve r g = finish h"
    by (simp add: resolve_def h_def)
  then show ?thesis
    using \<open>player h = player g\<close> l go ob by simp
qed

lemma run_step_invincible:
  assumes "run_step r g = Next g'" and "invincible (player g) > 1"
  shows "lives g' = lives g \<and> invincible (player g') = invincible (player g) - 1"
proof -
  define h where "h = projr (magnet (advance r g))"
  have g': "g' = resolve r h"
    using assms(1) run_step_Next [of r g] by (simp add: h_def)
  have "invincible (player h) = invincible (player g) - 1" and "lives h = lives g"
    using assms(2) by (simp_all add: h_def Player_update_invincible)
  moreover from this have "invincible (player h) \<noteq> 0"
    using assms(2) by simp
  ultimately show ?thesis
    using resolve_invincible [of h r] g' by simp
qed

lemma frame_invincible:
  assumes "frame inp g = Next g'" and "invincible (player g) > 1"
  shows "lives g' = lives g \<and> invincible (player g') \<ge> invincible (player g) - 1"
proof -
  from assms(1) obtain g1 where ev: "handle_events (particle_draws (snd inp)) (fst inp) g = Next g1"
    and rest: "(if paused g1 \<or> game_over g1 then Next g1 else run_step (snd inp) g1) = Next g'"
    by (auto simp add: frame_def split: frame_result.splits)
  have l1: "lives g1 = lives g" and i1: "invincible (player g1) = invincible (player g)"
    using handle_events_lives [OF ev] handle_events_frame [OF ev] by simp_all
  show ?thesis
  proof (cases "paused g1 \<or> game_over g1")
    case True
    then have "g' = g1" using rest by simp
    then show ?thesis using l1 i1 by simp
  next
    case False
    then have "run_step (snd inp) g1 = Next g'" using rest by simp
    then show ?thesis
      using run_step_invincible [of "snd inp" g1 g'] assms(2) l1 i1 by simp
  qed
qed

lemma frames_invincible:
  "frames inps g = Next g' \<Longrightarrow> int (length inps) < invincible (player g) \<Longrightarrow>
   lives g' = lives g"
proof (induction inps arbitrary: g)
  case Nil
  then show ?case by simp
next
  case (Cons inp inps)
  show ?case
  proof (cases "running g")
    case False
    then show ?thesis using Cons.prems(1) by simp
  next
    case True
    then obtain g1 where f: "frame inp g = Next g1" and fs: "frames inps g1 = Next g'"
      using Cons.prems(1) by (auto split: frame_result.splits)
    have "invincible (player g) > 1"
      using Cons.prems(2) by simp
    then have "lives g1 = lives g" and "invincible (player g1) \<ge> invincible (player g) - 1"
      using frame_invincible [OF f] by simp_all
    moreover from this have "int (length inps) < invincible (player g1)"
      using Cons.prems(2) by simp
    ultimately show ?thesis
      using Cons.IH [OF fs] by simp
  qed
qed

subsection \<open>What the second half of a step keeps\<close>

lemma resolve_player_rect [simp]: "Player_rect (player (resolve r g)) = Player_rect (player g)"
  by (simp add: resolve_def)

lemma resolve_powerups:
  "powerups (resolve r g) =
     map (\<lambda>pu. if \<not> pu_collected pu \<and> colliderect (Player_rect (player g)) (Powerup_rect pu)
                then pu\<lparr>pu_collected := True\<rparr> else pu) (powerups g)"
  using collide_powerups_list [of "particle_draws r" "powerups (collisions_coins r g)"
      "collisions_coins r g"]
  by (simp add: resolve_def pickups_def collisions_powerups_def case_prod_unfold)

lemma resolve_coins:
  "coins_list (resolve r g) =
     map (\<lambda>c. if \<not> co_collected c \<and> colliderect (Player_rect (player g)) (Coin_rect c)
               then c\<lparr>co_collected := True\<rparr> else c) (coins_list g)"
  using collide_coins_result [of "particle_draws r" "coins_list g" g]
  by (simp add: resolve_def pickups_def collisions_coins_def case_prod_unfold)

lemma collisions_obstacles_subset:
  "set (obstacles (collisions_obstacles r g)) \<subseteq> set (obstacles g)"
  using collide_obstacles_cases [of "particle_draws r" "obstacles g" g]
  by (auto simp add: collisions_obstacles_def)

lemma resolve_obstacles_subset: "set (obstacles (resolve r g)) \<subseteq> set (obstacles g)"
  using collisions_obstacles_subset [of r "pickups r g"]
  by (simp add: resolve_def)

lemma resolve_particles: "\<forall>p\<in>set (particles (resolve r g)). \<not> life p \<le> 0"
  by (simp add: resolve_def finish_def update_particles_def)

lemma collisions_coins_score: "score g \<le> score (collisions_coins r g)"
proof -
  have "0 \<le> (\<Sum>c\<leftarrow>cs. (of_int (10 * (if special c then 5 else 1)) :: real))" for cs :: "coin list"
    by (rule sum_list_nonneg) auto
  then show ?thesis
    using collide_coins_result [of "particle_draws r" "coins_list g" g]
    by (simp add: collisions_coins_def case_prod_unfold)
qed

lemma resolve_score: "score g + speed g * 0.05 \<le> score (resolve r g)"
  using collisions_coins_score [of g r] by (simp add: resolve_def pickups_def finish_def accrue_score_def)

lemma speed_ramp_ge: "0 \<le> sc \<Longrightarrow> 6 \<le> speed_ramp sc pa"
  by (simp add: speed_ramp_def Let_def)

subsection \<open>What the first half of a step removes\<close>

lemma advance_on_screen:
  "\<forall>ob\<in>set (obstacles (advance r g)). \<not> Obstacle_is_off_screen ob"
  "\<forall>c\<in>set (coins_list (advance r g)). \<not> Coin_is_off_screen c"
  "\<forall>pu\<in>set (powerups (advance r g)). \<not> Powerup_is_off_screen pu"
  by (simp_all add: advance_lists update_obstacles_def update_coins_def update_powerups_def)

lemma magnet_on_screen:
  assumes "\<forall>c\<in>set (coins_list g). \<not> Coin_is_off_screen c" and "5 \<le> speed g"
  shows "\<forall>c\<in>set (coins_list (projr (magnet g))). \<not> Coin_is_off_screen c"
proof -
  obtain cs' where m: "magnet g = Inr (g\<lparr>coins_list := cs'\<rparr>)"
    and rel: "list_all2 (\<lambda>c c'. c' = c \<or> magnet_coin (player g) (speed g) c = Inr c')
                (coins_list g) cs'"
    using magnet_Inr by blast
  have "\<not> Coin_is_off_screen c'" if "c' \<in> set cs'" for c'
  proof -
    from that obtain i where i: "i < length cs'" and c': "cs' ! i = c'"
      by (auto simp add: in_set_conv_nth)
    define c where "c = coins_list g ! i"
    have len: "i < length (coins_list g)"
      using i list_all2_lengthD [OF rel] by simp
    then have mem: "c \<in> set (coins_list g)"
      by (simp add: c_def)
    have "c' = c \<or> magnet_coin (player g) (speed g) c = Inr c'"
      using list_all2_nthD2 [OF rel i] c' by (simp add: c_def)
    then have "co_y c' \<le> co_y c"
      using magnet_coin_y [of "player g" "speed g" c c'] assms(2) by blast
    moreover have "\<not> Coin_is_off_screen c"
      using mem assms(1) by blast
    ultimately have "co_y c' \<le> co_y c" and "\<not> Coin_is_off_screen c"
      by simp_all
    then show ?thesis
      by (simp add: Coin_is_off_screen_def)
  qed
  then show ?thesis
    using m by simp
qed

subsection \<open>The ended session\<close>

lemma handle_keydown_ended:
  "game_over g \<Longrightarrow>
   handle_keydown jit k g =
     (if k = K_ESCAPE \<or> k = K_SPACE then Next (g\<lparr>running := False\<rparr>)
      else if k = K_p then Next (g\<lparr>paused := \<not> paused g\<rparr>)
      else Next g)"
  by (simp add: handle_keydown_def)

lemma handle_event_ended:
  "game_over g \<Longrightarrow>
   handle_event jit e g =
     (case e of
        QUIT \<Rightarrow> SysExit
      | KEYDOWN k \<Rightarrow>
          if k = K_ESCAPE \<or> k = K_SPACE then Next (g\<lparr>running := False\<rparr>)
          else if k = K_p then Next (g\<lparr>paused := \<not> paused g\<rparr>)
          else Next g
      | OTHER_EVENT \<Rightarrow> Next g)"
  by (cases e) (simp_all add: handle_keydown_ended)

lemma handle_event_ended_frame:
  assumes "game_over g" and "handle_event jit e g = Next g'"
  shows "g'\<lparr>paused := paused g, running := running g\<rparr> = g \<and> game_over g'"
  using assms unfolding handle_event_ended [OF assms(1)]
  by (auto split: event.splits if_splits)

lemma handle_events_ended_frame:
  assumes "game_over g" and "handle_events jit es g = Next g'"
  shows "g'\<lparr>paused := paused g, running := running g\<rparr> = g \<and> game_over g'"
  using assms
proof (induction es arbitrary: g)
  case Nil
  then show ?case by simp
next
  case (Cons e es)
  from Cons.prems(2) obtain g1 where e1: "handle_event jit e g = Next g1"
    and e2: "handle_events jit es g1 = Next g'"
    by (auto split: frame_result.splits)
  note f1 = handle_event_ended_frame [OF Cons.prems(1) e1]
  then have "game_over g1" by simp
  note f2 = Cons.IH [OF this e2]
  have "g'\<lparr>paused := paused g, running := running g\<rparr> =
        (g'\<lparr>paused := paused g1, running := running g1\<rparr>)\<lparr>paused := paused g,
            running := running g\<rparr>"
    by simp
  also have "\<dots> = g1\<lparr>paused := paused g, running := running g\<rparr>"
    using f2 by simp
  also have "\<dots> = g"
    using f1 by simp
  finally show ?case
    using f2 by simp
qed

lemma frame_ended:
  assumes "game_over g" and "frame inp g = Next g'"
  shows "g'\<lparr>paused := paused g, running := running g\<rparr> = g \<and> game_over g'"
proof -
  from assms(2) obtain g1 where ev: "handle_events (particle_draws (snd inp)) (fst inp) g = Next g1"
    and rest: "(if paused g1 \<or> game_over g1 then Next g1 else run_step (snd inp) g1) = Next g'"
    by (auto simp add: frame_def split: frame_result.splits)
  note f = handle_events_ended_frame [OF assms(1) ev]
  then have "g' = g1" using rest by simp
  then show ?thesis using f by simp
qed

lemma frames_ended:
  assumes "game_over g" and "frames inps g = Next g'"
  shows "g'\<lparr>paused := paused g, running := running g\<rparr> = g \<and> game_over g'"
  using assms
proof (induction inps arbitrary: g)
  case Nil
  then show ?case by simp
next
  case (Cons inp inps)
  show ?case
  proof (cases "running g")
    case False
    then show ?thesis using Cons.prems by simp
  next
    case True
    then obtain g1 where f: "frame inp g = Next g1" and fs: "frames inps g1 = Next g'"
      using Cons.prems(2) by (auto split: frame_result.splits)
    note f1 = frame_ended [OF Cons.prems(1) f]
    then have "game_over g1" by simp
    note f2 = Cons.IH [OF this fs]
    have "g'\<lparr>paused := paused g, running := running g\<rparr> =
          (g'\<lparr>paused := paused g1, running := running g1\<rparr>)\<lparr>paused := paused g,
              running := running g\<rparr>"
      by simp
    also have "\<dots> = g1\<lparr>paused := paused g, running := running g\<rparr>"
      using f2 by simp
    also have "\<dots> = g"
      using f1 by simp
    finally show ?thesis
      using f2 by simp
  qed
qed

lemma collisions_obstacles_ended:
  assumes "0 < lives g \<or> game_over g"
  shows "0 < lives (collisions_obstacles r g) \<or> game_over (collisions_obstacles r g)"
  using collide_obstacles_cases [of "particle_draws r" "obstacles g" g] assms
  by (auto simp add: collisions_obstacles_def split: if_splits)

lemma run_step_ended:
  assumes "0 < lives g \<or> game_over g" and "run_step r g = Next g'"
  shows "0 < lives g' \<or> game_over g'"
proof -
  define h where "h = pickups r (projr (magnet (advance r g)))"
  have "g' = finish (collisions_obstacles r h)"
    using assms(2) run_step_Next [of r g] by (simp add: resolve_def h_def)
  moreover have "0 < lives h \<or> game_over h"
    using assms(1) by (simp add: h_def)
  ultimately show ?thesis
    using collisions_obstacles_ended [of h r] by simp
qed

lemma frame_lives_ended:
  assumes "0 < lives g \<or> game_over g" and "frame inp g = Next g'"
  shows "0 < lives g' \<or> game_over g'"
proof -
  from assms(2) obtain g1 where ev: "handle_events (particle_draws (snd inp)) (fst inp) g = Next g1"
    and rest: "(if paused g1 \<or> game_over g1 then Next g1 else run_step (snd inp) g1) = Next g'"
    by (auto simp add: frame_def split: frame_result.splits)
  have 1: "0 < lives g1 \<or> game_over g1"
    using handle_events_lives [OF ev] assms(1) by simp
  show ?thesis
  proof (cases "paused g1 \<or> game_over g1")
    case True
    then show ?thesis using rest 1 by simp
  next
    case False
    then show ?thesis using rest run_step_ended [OF 1] by simp
  qed
qed

subsection \<open>Easing toward the target lane\<close>

lemma Player_update_x:
  "pl_x (fst (Player_update jit p ps)) = pl_x p + (target_x p - pl_x p) * 0.22"
  "target_x (fst (Player_update jit p ps)) = target_x p"
  by (simp_all add: Player_update_def case_prod_unfold update_animation_def update_invincible_def
      update_slide_timer_def update_gravity_def update_horizontal_def Let_def)

lemma resolve_player: "\<exists>i. player (resolve r g) = (player g)\<lparr>invincible := i\<rparr>"
  using collisions_obstacles_player [of r "pickups r g"]
  by (simp add: resolve_def)

lemma run_step_x:
  assumes "run_step r g = Next g'"
  shows "pl_x (player g') = pl_x (player g) + 0.22 * (target_x (player g) - pl_x (player g))"
    and "target_x (player g') = target_x (player g)"
proof -
  define h where "h = projr (magnet (advance r g))"
  have "g' = resolve r h"
    using assms run_step_Next [of r g] by (simp add: h_def)
  then obtain i where "player g' = (player h)\<lparr>invincible := i\<rparr>"
    using resolve_player by blast
  then have "pl_x (player g') = pl_x (player h)" and "target_x (player g') = target_x (player h)"
    by simp_all
  then show "pl_x (player g') = pl_x (player g) + 0.22 * (target_x (player g) - pl_x (player g))"
    and "target_x (player g') = target_x (player g)"
    by (simp_all add: h_def Player_update_x)
qed

lemma Player_updates_target [simp]:
  "target_x (fst (Player_updates jit n (p, ps))) = target_x p"
  by (induction n) (simp_all add: case_prod_unfold Player_update_x)

lemma Player_updates_gap:
  "target_x p - pl_x (fst (Player_updates jit n (p, ps))) = 0.78 ^ n * (target_x p - pl_x p)"
proof (induction n)
  case 0
  show ?case by simp
next
  case (Suc n)
  define q where "q = fst (Player_updates jit n (p, ps))"
  have "target_x p - pl_x (fst (Player_updates jit (Suc n) (p, ps))) =
          target_x p - (pl_x q + (target_x q - pl_x q) * 0.22)"
    by (simp add: case_prod_unfold Player_update_x q_def)
  also have "\<dots> = 0.78 * (target_x p - pl_x q)"
    by (simp add: q_def field_simps)
  also have "\<dots> = 0.78 * (0.78 ^ n * (target_x p - pl_x p))"
    using Suc.IH by (simp add: q_def)
  finally show ?case by simp
qed

subsection \<open>Hitboxes of a grounded player and of a train\<close>

lemma py_int_ge_iff: "0 < a \<Longrightarrow> a \<le> py_int z \<longleftrightarrow> of_int a \<le> z"
  by (auto simp add: py_int_def le_floor_iff le_ceiling_iff)

lemma py_int_less_iff: "0 < a \<Longrightarrow> py_int z < a \<longleftrightarrow> z < of_int a"
  by (auto simp add: py_int_def floor_less_iff ceiling_less_iff)

lemma train_rect:
  assumes "ob_kind ob = Train" and "ob_w ob = 44" and "ob_h ob = 90" and "0 \<le> ob_y ob"
  shows "Obstacle_rect ob = \<lparr>rx = ob_x ob - 22, ry = py_int (ob_y ob - 90), rw = 44, rh = 90\<rparr>"
  using assms by (simp add: Obstacle_rect_def Rect_def)

lemma Player_rect_ground:
  assumes "pl_y p = of_int GROUND_Y"
  shows "Player_rect p =
           (if sliding p then \<lparr>rx = py_int (pl_x p - 18), ry = 572, rw = 36, rh = 18\<rparr>
            else \<lparr>rx = py_int (pl_x p - 18), ry = 534, rw = 36, rh = 56\<rparr>)"
  using assms by (simp add: Player_rect_def Rect_def P_WIDTH_def P_HEIGHT_def GROUND_Y_def HEIGHT_def)

lemma train_collision_iff:
  assumes "ob_kind ob = Train" and "ob_w ob = 44" and "ob_h ob = 90" and "0 \<le> ob_y ob"
    and "pl_y p = of_int GROUND_Y"
  shows "colliderect (Player_rect p) (Obstacle_rect ob) \<longleftrightarrow>
           py_int (pl_x p - 18) < ob_x ob + 22 \<and> ob_x ob - 22 < py_int (pl_x p - 18) + 36 \<and>
           (if sliding p then 573 else 535) \<le> ob_y ob \<and> ob_y ob < 680"
proof -
  have lo: "482 < py_int (ob_y ob - 90) \<longleftrightarrow> 573 \<le> ob_y ob"
    using py_int_ge_iff [of 483 "ob_y ob - 90"] by auto
  have lo': "444 < py_int (ob_y ob - 90) \<longleftrightarrow> 535 \<le> ob_y ob"
    using py_int_ge_iff [of 445 "ob_y ob - 90"] by auto
  have hi: "py_int (ob_y ob - 90) < 590 \<longleftrightarrow> ob_y ob < 680"
    using py_int_less_iff [of 590 "ob_y ob - 90"] by auto
  show ?thesis
    unfolding train_rect [OF assms(1-4)] Player_rect_ground [OF assms(5)]
    using lo lo' hi by (auto simp add: colliderect_def)
qed

lemma Obstacle_updates_fields [simp]:
  "ob_kind (Obstacle_updates ss ob) = ob_kind ob"
  "ob_w (Obstacle_updates ss ob) = ob_w ob"
  "ob_h (Obstacle_updates ss ob) = ob_h ob"
  "ob_x (Obstacle_updates ss ob) = ob_x ob"
  by (induction ss arbitrary: ob) (simp_all add: Obstacle_update_def)

lemma Obstacle_updates_y: "ob_y (Obstacle_updates ss ob) = ob_y ob + sum_list ss"
  by (induction ss arbitrary: ob) (simp_all add: Obstacle_update_def)

text \<open>A train that advances by at most 24 per step cannot jump over the window from 573 to 680.\<close>

lemma train_cannot_skip:
  fixes y :: real
  assumes "\<forall>s\<in>set ss. 0 \<le> s \<and> s \<le> 24" and "y < 573" and "680 \<le> y + sum_list ss"
  shows "\<exists>n\<le>length ss. 573 \<le> y + sum_list (take n ss) \<and> y + sum_list (take n ss) < 680"
  using assms
proof (induction ss arbitrary: y)
  case Nil
  then show ?case by simp
next
  case (Cons s ss)
  show ?case
  proof (cases "573 \<le> y + s")
    case True
    have "s \<le> 24" using Cons.prems(1) by simp
    then have "573 \<le> y + sum_list (take 1 (s # ss)) \<and> y + sum_list (take 1 (s # ss)) < 680"
      using True Cons.prems(2) by simp
    moreover have "1 \<le> length (s # ss)" by simp
    ultimately show ?thesis by blast
  next
    case False
    then have "y + s < 573" by simp
    moreover have "680 \<le> (y + s) + sum_list ss"
      using Cons.prems(3) by simp
    moreover have "\<forall>s\<in>set ss. 0 \<le> s \<and> s \<le> 24"
      using Cons.prems(1) by simp
    ultimately obtain n where "n \<le> length ss"
      and "573 \<le> (y + s) + sum_list (take n ss) \<and> (y + s) + sum_list (take n ss) < 680"
      using Cons.IH [of "y + s"] by blast
    then have "Suc n \<le> length (s # ss)"
      and "573 \<le> y + sum_list (take (Suc n) (s # ss)) \<and>
           y + sum_list (take (Suc n) (s # ss)) < 680"
      by (simp_all add: add.assoc)
    then show ?thesis by blast
  qed
qed

lemma lanes_apart:
  assumes "l \<in> set LANES" and "k \<in> set LANES" and "l \<noteq> k"
  shows "l + 120 \<le> k \<or> k + 120 \<le> l"
  using assms by (auto simp add: LANES_def WIDTH_def)

subsection \<open>The concrete inputs evaluated\<close>

lemma coin_at_rect:
  "Coin_rect (coin_at 1 y sp col) = \<lparr>rx = 230, ry = py_int (y + 580), rw = 20, rh = 20\<rparr>"
  "Coin_rect (coin_at 0 y sp col) = \<lparr>rx = 110, ry = py_int (y + 580), rw = 20, rh = 20\<rparr>"
  by (simp_all add: Coin_rect_def coin_at_def Rect_def consts_defs)

lemma Player_rect_initial: "Player_rect Player = \<lparr>rx = 222, ry = 534, rw = 36, rh = 56\<rparr>"
  by (simp add: Player_rect_def Player_def Rect_def consts_defs)

lemma obstacle_at_rect:
  "Obstacle_rect (obstacle_at Barrier l y) =
     \<lparr>rx = LANES ! nat l - 24, ry = py_int (if y < 0 then y + 562 else y - 28), rw = 48, rh = 28\<rparr>"
  "Obstacle_rect (obstacle_at Train l y) =
     \<lparr>rx = LANES ! nat l - 22, ry = py_int (if y < 0 then y + 500 else y - 90), rw = 44, rh = 90\<rparr>"
  by (simp_all add: Obstacle_rect_def obstacle_at_def Rect_def GROUND_Y_def HEIGHT_def)

lemma LANES_nth [simp]: "LANES ! 0 = 120" "LANES ! 1 = 240" "LANES ! Suc 0 = 240" "LANES ! 2 = 360"
  by (simp_all add: LANES_def WIDTH_def numeral_2_eq_2)

lemma game_obstacles_fields:
  "obstacles game_obstacles =
     [] @ obstacle_at Barrier 0 300 # [obstacle_at Barrier 1 560, obstacle_at Train 1 (- 20)]"
  "obstacles game_obstacles =
     [obstacle_at Barrier 0 300] @ obstacle_at Barrier 1 560 # [obstacle_at Train 1 (- 20)]"
  "player game_obstacles = Player" "lives game_obstacles = 3"
  "powerup_active game_obstacles = None" "game_over game_obstacles = False"
  "paused game_obstacles = False" "running game_obstacles = True"
  by (simp_all add: game_obstacles_def game_setup_def)

lemma game_shield_fields:
  "obstacles game_shield =
     [obstacle_at Barrier 0 300] @ obstacle_at Barrier 1 560 # [obstacle_at Train 1 (- 20)]"
  "player game_shield = Player" "lives game_shield = 3"
  "powerup_active game_shield = Some Shield"
  by (simp_all add: game_shield_def game_obstacles_def game_setup_def)

lemma Player_invincible [simp]: "invincible Player = 0"
  by (simp add: Player_def)

lemma powerup_at_rect:
  "Powerup_rect ((powerup_at 1 y k)\<lparr>pu_speed := s, pu_y := y', pu_anim := a\<rparr>) =
     \<lparr>rx = 224, ry = py_int (y' + 530), rw = 32, rh = 32\<rparr>"
  by (simp add: Powerup_rect_def powerup_at_def Rect_def GROUND_Y_def HEIGHT_def)

lemma Player_update_initial:
  "fst (Player_update jit Player ps) = Player\<lparr>anim_timer := 1\<rparr>"
  by (simp add: Player_update_def case_prod_unfold update_animation_def update_invincible_def
      update_slide_timer_def update_gravity_def update_horizontal_def Let_def Player_def)

lemma Player_rect_anim [simp]: "Player_rect (p\<lparr>anim_timer := t\<rparr>) = Player_rect p"
  by (simp add: Player_rect_def)

lemma game_powerup_step:
  "run_step rnd0 game_powerup = Next (resolve rnd0 (projr (magnet (advance rnd0 game_powerup))))"
  "powerups (resolve rnd0 (projr (magnet (advance rnd0 game_powerup)))) =
     [(powerup_at 1 14 Shield)\<lparr>pu_speed := 6, pu_y := 20, pu_anim := 1, pu_collected := True\<rparr>]"
proof -
  show "run_step rnd0 game_powerup =
      Next (resolve rnd0 (projr (magnet (advance rnd0 game_powerup))))"
    by (rule run_step_Next)
  define h where "h = projr (magnet (advance rnd0 game_powerup))"
  have sp: "speed_ramp (score game_powerup) (powerup_active game_powerup) = 6"
    by (simp add: game_powerup_def game_setup_def speed_ramp_def)
  have l: "powerups (spawn_powerups rnd0 (game_powerup\<lparr>speed := 6\<rparr>)) = [powerup_at 1 14 Shield]"
    by (simp add: game_powerup_def game_setup_def spawn_powerups_def)
  have u: "Powerup_update ((powerup_at 1 14 Shield)\<lparr>pu_speed := 6\<rparr>) =
             (powerup_at 1 14 Shield)\<lparr>pu_speed := 6, pu_y := 20, pu_anim := 1\<rparr>"
    by (simp add: Powerup_update_def powerup_at_def)
  have o: "\<not> Powerup_is_off_screen
             ((powerup_at 1 14 Shield)\<lparr>pu_speed := 6, pu_y := 20, pu_anim := 1\<rparr>)"
    and c: "\<not> pu_collected ((powerup_at 1 14 Shield)\<lparr>pu_speed := 6, pu_y := 20, pu_anim := 1\<rparr>)"
    by (simp_all add: Powerup_is_off_screen_def HEIGHT_def powerup_at_def)
  have "powerups (advance rnd0 game_powerup) =
      [(powerup_at 1 14 Shield)\<lparr>pu_speed := 6, pu_y := 20, pu_anim := 1\<rparr>]"
    unfolding advance_lists sp l by (simp add: update_powerups_def u o)
  then have pu: "powerups h = [(powerup_at 1 14 Shield)\<lparr>pu_speed := 6, pu_y := 20, pu_anim := 1\<rparr>]"
    by (simp add: h_def)
  have "player game_powerup = Player"
    by (simp add: game_powerup_def game_setup_def)
  then have pl: "Player_rect (player h) = \<lparr>rx = 222, ry = 534, rw = 36, rh = 56\<rparr>"
    by (simp add: h_def Player_update_initial Player_rect_initial)
  have "powerups (resolve rnd0 h) =
     [(powerup_at 1 14 Shield)\<lparr>pu_speed := 6, pu_y := 20, pu_anim := 1, pu_collected := True\<rparr>]"
    unfolding resolve_powerups pu pl
    by (simp add: c powerup_at_rect colliderect_def)
  then show "powerups (resolve rnd0 (projr (magnet (advance rnd0 game_powerup)))) =
     [(powerup_at 1 14 Shield)\<lparr>pu_speed := 6, pu_y := 20, pu_anim := 1, pu_collected := True\<rparr>]"
    by (simp only: h_def)
qed

lemma game_ended_frames:
  "frames [([KEYDOWN K_LEFT, KEYDOWN K_UP, KEYDOWN K_p], rnd0), ([KEYDOWN K_DOWN, KEYDOWN K_SPACE], rnd0),
           ([KEYDOWN K_p], rnd0)] game_ended =
     Next (game_ended\<lparr>paused := True, running := False\<rparr>)"
proof -
  have g: "game_over game_ended" "running game_ended" "\<not> paused game_ended"
    by (simp_all add: game_ended_def game_setup_def)
  have 1: "frame ([KEYDOWN K_LEFT, KEYDOWN K_UP, KEYDOWN K_p], rnd0) game_ended =
             Next (game_ended\<lparr>paused := True\<rparr>)"
    using g by (simp add: frame_def handle_keydown_ended)
  have 2: "frame ([KEYDOWN K_DOWN, KEYDOWN K_SPACE], rnd0) (game_ended\<lparr>paused := True\<rparr>) =
             Next (game_ended\<lparr>paused := True, running := False\<rparr>)"
    using g by (simp add: frame_def handle_keydown_ended)
  show ?thesis
    using g by (simp add: 1 2)
qed

lemma move_lane_initial:
  "pl_x (move_lane Player 1) = 240" "target_x (move_lane Player 1) = 360"
  by (simp_all add: move_lane_def Player_def LANE_COUNT_def Let_def)

lemma slide_Player:
  "sliding (slide Player)" "pl_y (slide Player) = of_int GROUND_Y" "pl_x (slide Player) = 240"
  "Player_rect (slide Player) = \<lparr>rx = 222, ry = 572, rw = 36, rh = 18\<rparr>"
  by (simp_all add: slide_def Player_def Player_rect_def Rect_def consts_defs)

lemma obstacle_at_train [simp]:
  "ob_kind (obstacle_at Train l y) = Train" "ob_w (obstacle_at Train l y) = 44"
  "ob_h (obstacle_at Train l y) = 90" "ob_y (obstacle_at Train l y) = y"
  "ob_x (obstacle_at Train l y) = LANES ! nat l"
  by (simp_all add: obstacle_at_def)

lemma magnet_inactive: "powerup_active g \<noteq> Some Magnet \<Longrightarrow> magnet g = Inr g"
  by (simp add: magnet_def)

lemma pickups_no_powerups:
  assumes "powerups g = []"
  shows "powerup_active (pickups r g) = powerup_active (powerup_countdown g)"
    and "powerup_timer (pickups r g) = powerup_timer (powerup_countdown g)"
proof -
  define h where "h = collisions_coins r g"
  have "powerups h = []" and a: "powerup_active h = powerup_active g"
    and t: "powerup_timer h = powerup_timer g"
    using assms by (simp_all add: h_def)
  then have "collisions_powerups r h = h\<lparr>powerups := []\<rparr>"
    by (simp add: collisions_powerups_def)
  then have "pickups r g = powerup_countdown (h\<lparr>powerups := []\<rparr>)"
    by (simp add: pickups_def h_def)
  then show "powerup_active (pickups r g) = powerup_active (powerup_countdown g)"
    and "powerup_timer (pickups r g) = powerup_timer (powerup_countdown g)"
    using a t by (simp_all add: powerup_countdown_def Let_def)
qed

lemma obstacle_at_update:
  "Obstacle_update ((obstacle_at k l y)\<lparr>ob_speed := 6\<rparr>) = obstacle_at k l (y + 6)"
  by (simp add: Obstacle_update_def obstacle_at_def)

text \<open>The state in which the step from \<open>game_obstacles\<close> enters the obstacle block.\<close>

lemma game_obstacles_entry:
  "magnet (advance rnd0 game_obstacles) = Inr (advance rnd0 game_obstacles)"
  "obstacles (pickups rnd0 (advance rnd0 game_obstacles)) =
     [obstacle_at Barrier 0 306] @ obstacle_at Barrier 1 566 # [obstacle_at Train 1 (- 14)]"
  "Player_rect (player (pickups rnd0 (advance rnd0 game_obstacles))) = Player_rect Player"
  "invincible (player (pickups rnd0 (advance rnd0 game_obstacles))) = 0"
  "powerup_active (pickups rnd0 (advance rnd0 game_obstacles)) = None"
  "lives (pickups rnd0 (advance rnd0 game_obstacles)) = 3"
  "game_over (pickups rnd0 (advance rnd0 game_obstacles)) = False"
proof -
  have f: "score game_obstacles = 0" "powerup_active game_obstacles = None"
    "powerup_timer game_obstacles = 0" "powerups game_obstacles = []"
    "powerup_timer_spawn game_obstacles = 0" "spawn_timer game_obstacles = 0"
    "player game_obstacles = Player" "lives game_obstacles = 3" "\<not> game_over game_obstacles"
    "obstacles game_obstacles =
       [obstacle_at Barrier 0 300, obstacle_at Barrier 1 560, obstacle_at Train 1 (- 20)]"
    by (simp_all add: game_obstacles_def game_setup_def)
  have sp: "speed_ramp 0 None = 6"
    by (simp add: speed_ramp_def)
  show "magnet (advance rnd0 game_obstacles) = Inr (advance rnd0 game_obstacles)"
    by (rule magnet_inactive) (simp add: f)
  have "obstacles (advance rnd0 game_obstacles) =
     [obstacle_at Barrier 0 306, obstacle_at Barrier 1 566, obstacle_at Train 1 (- 14)]"
    unfolding advance_lists f sp
    by (simp add: spawn_obstacles_def f update_obstacles_def obstacle_at_update)
       (simp add: Obstacle_is_off_screen_def obstacle_at_def HEIGHT_def)
  then show "obstacles (pickups rnd0 (advance rnd0 game_obstacles)) =
     [obstacle_at Barrier 0 306] @ obstacle_at Barrier 1 566 # [obstacle_at Train 1 (- 14)]"
    by simp
  show "Player_rect (player (pickups rnd0 (advance rnd0 game_obstacles))) = Player_rect Player"
    "invincible (player (pickups rnd0 (advance rnd0 game_obstacles))) = 0"
    by (simp_all add: f Player_update_initial)
  have "powerups (advance rnd0 game_obstacles) = []"
    unfolding advance_lists f sp by (simp add: spawn_powerups_def f update_powerups_def)
  then show "powerup_active (pickups rnd0 (advance rnd0 game_obstacles)) = None"
    by (simp add: pickups_no_powerups powerup_countdown_def f)
  show "lives (pickups rnd0 (advance rnd0 game_obstacles)) = 3"
    "game_over (pickups rnd0 (advance rnd0 game_obstacles)) = False"
    by (simp_all add: f)
qed

text \<open>The same for \<open>game_shield\<close>.\<close>

lemma game_shield_entry:
  "magnet (advance rnd0 game_shield) = Inr (advance rnd0 game_shield)"
  "obstacles (pickups rnd0 (advance rnd0 game_shield)) =
     [obstacle_at Barrier 0 306] @ obstacle_at Barrier 1 566 # [obstacle_at Train 1 (- 14)]"
  "Player_rect (player (pickups rnd0 (advance rnd0 game_shield))) = Player_rect Player"
  "invincible (player (pickups rnd0 (advance rnd0 game_shield))) = 0"
  "powerup_active (pickups rnd0 (advance rnd0 game_shield)) = Some Shield"
  "lives (pickups rnd0 (advance rnd0 game_shield)) = 3"
  "game_over (pickups rnd0 (advance rnd0 game_shield)) = False"
proof -
  have f: "score game_shield = 0" "powerup_active game_shield = Some Shield"
    "powerup_timer game_shield = 100" "powerups game_shield = []"
    "powerup_timer_spawn game_shield = 0" "spawn_timer game_shield = 0"
    "player game_shield = Player" "lives game_shield = 3" "\<not> game_over game_shield"
    "obstacles game_shield =
       [obstacle_at Barrier 0 300, obstacle_at Barrier 1 560, obstacle_at Train 1 (- 20)]"
    by (simp_all add: game_shield_def game_obstacles_def game_setup_def)
  have sp: "speed_ramp 0 (Some Shield) = 6"
    by (simp add: speed_ramp_def)
  show "magnet (advance rnd0 game_shield) = Inr (advance rnd0 game_shield)"
    by (rule magnet_inactive) (simp add: f)
  have "obstacles (advance rnd0 game_shield) =
     [obstacle_at Barrier 0 306, obstacle_at Barrier 1 566, obstacle_at Train 1 (- 14)]"
    unfolding advance_lists f sp
    by (simp add: spawn_obstacles_def f update_obstacles_def obstacle_at_update)
       (simp add: Obstacle_is_off_screen_def obstacle_at_def HEIGHT_def)
  then show "obstacles (pickups rnd0 (advance rnd0 game_shield)) =
     [obstacle_at Barrier 0 306] @ obstacle_at Barrier 1 566 # [obstacle_at Train 1 (- 14)]"
    by simp
  show "Player_rect (player (pickups rnd0 (advance rnd0 game_shield))) = Player_rect Player"
    "invincible (player (pickups rnd0 (advance rnd0 game_shield))) = 0"
    by (simp_all add: f Player_update_initial)
  have "powerups (advance rnd0 game_shield) = []"
    unfolding advance_lists f sp by (simp add: spawn_powerups_def f update_powerups_def)
  then show "powerup_active (pickups rnd0 (advance rnd0 game_shield)) = Some Shield"
    by (simp add: pickups_no_powerups powerup_countdown_def f)
  show "lives (pickups rnd0 (advance rnd0 game_shield)) = 3"
    "game_over (pickups rnd0 (advance rnd0 game_shield)) = False"
    by (simp_all add: f)
qed

lemma entry_hits:
  "\<not> colliderect (Player_rect Player) (Obstacle_rect (obstacle_at Barrier 0 306))"
  "colliderect (Player_rect Player) (Obstacle_rect (obstacle_at Barrier 1 566))"
  "colliderect (Player_rect Player) (Obstacle_rect (obstacle_at Train 1 (- 14)))"
  by (simp_all add: obstacle_at_rect Player_rect_initial colliderect_def)


section \<open>The claims\<close>

text \<open>
  C1. One pass of coin resolution marks every uncollected coin whose hitbox overlaps the
  player's hitbox as collected and leaves the other coins as they are; the score grows by
  \<open>10 * value\<close> for each such coin (\<open>value\<close> is 5 for a special coin, else 1: 10 or 50),
  and the coin count by \<open>width div 10 + (value - 1)\<close> for each such coin (2 or 6).
\<close>

theorem coin_collection:
  "coins_list (collisions_coins r g) =
     map (\<lambda>c. if \<not> co_collected c \<and> colliderect (Player_rect (player g)) (Coin_rect c)
               then c\<lparr>co_collected := True\<rparr> else c) (coins_list g) \<and>
   score (collisions_coins r g) =
     score g + (\<Sum>c\<leftarrow>filter (\<lambda>c. \<not> co_collected c \<and>
                    colliderect (Player_rect (player g)) (Coin_rect c)) (coins_list g).
                  of_int (10 * (if special c then 5 else 1))) \<and>
   coins_collected (collisions_coins r g) =
     coins_collected g + (\<Sum>c\<leftarrow>filter (\<lambda>c. \<not> co_collected c \<and>
                    colliderect (Player_rect (player g)) (Coin_rect c)) (coins_list g).
                  width (Coin_rect c) div 10 + ((if special c then 5 else 1) - 1)) \<and>
   (\<forall>c. (of_int (10 * (if special c then 5 else 1)) :: real) = (if special c then 50 else 10)) \<and>
   (\<forall>c. width (Coin_rect c) div 10 + ((if special c then 5 else 1) - 1) =
         (if special c then 6 else 2))"
proof -
  have "width (Coin_rect c) div 10 = 2" for c
    by (simp add: width_def Coin_rect_def Rect_def RADIUS_def)
  then show ?thesis
    using collide_coins_result [of "particle_draws r" "coins_list g" g]
    by (simp add: collisions_coins_def case_prod_unfold)
qed

theorem coin_collection_witness:
  "map co_collected (coins_list (collisions_coins rnd0 game_coins)) = [True, True, False, True] \<and>
   score (collisions_coins rnd0 game_coins) = score game_coins + 60 \<and>
   coins_collected (collisions_coins rnd0 game_coins) = coins_collected game_coins + 8"
proof -
  have c: "coins_list game_coins =
       [coin_at 1 (- 30) False False, coin_at 1 (- 20) True False,
        coin_at 0 (- 30) False False, coin_at 1 (- 25) False True]"
    and p: "player game_coins = Player"
    by (simp_all add: game_coins_def game_setup_def)
  have s: "special (coin_at l y sp col) = sp" "co_collected (coin_at l y sp col) = col"
    for l y sp col
    by (simp_all add: coin_at_def)
  note cc = coin_collection [of rnd0 game_coins, unfolded c p]
  have "coins_list (collisions_coins rnd0 game_coins) =
       [(coin_at 1 (- 30) False False)\<lparr>co_collected := True\<rparr>,
        (coin_at 1 (- 20) True False)\<lparr>co_collected := True\<rparr>,
        coin_at 0 (- 30) False False, coin_at 1 (- 25) False True]"
    using cc [THEN conjunct1]
    by (simp add: coin_at_rect Player_rect_initial colliderect_def s)
  moreover have "score (collisions_coins rnd0 game_coins) = score game_coins + 60"
    using cc [THEN conjunct2, THEN conjunct1]
    by (simp add: coin_at_rect Player_rect_initial colliderect_def s)
  moreover have "coins_collected (collisions_coins rnd0 game_coins) = coins_collected game_coins + 8"
    using cc [THEN conjunct2, THEN conjunct2, THEN conjunct1]
    by (simp add: coin_at_rect Player_rect_initial colliderect_def s width_def)
  ultimately show ?thesis
    by (simp add: s)
qed

text \<open>
  C2, as amended. When a running step enters the obstacle block with the shield active,
  the invincibility counter at 0 and some obstacle overlapping the player, the step
  removes the first overlapping obstacle of the list and no other, clears the active
  power-up and its timer, sets the invincibility counter to 90 and leaves the lives
  unchanged. Here \<open>g0\<close> is the state at the start of the step and \<open>g\<close> the state in which
  the obstacle block is entered.
\<close>

theorem shield_consumes_first_obstacle:
  assumes "magnet (advance r g0) = Inr m" and "g = pickups r m"
    and "powerup_active g = Some Shield"
    and "invincible (player g) = 0"
    and "\<exists>ob\<in>set (obstacles g). colliderect (Player_rect (player g)) (Obstacle_rect ob)"
  shows "\<exists>g' pre ob post.
           run_step r g0 = Next g' \<and>
           obstacles g = pre @ ob # post \<and>
           (\<forall>x\<in>set pre. \<not> colliderect (Player_rect (player g)) (Obstacle_rect x)) \<and>
           colliderect (Player_rect (player g)) (Obstacle_rect ob) \<and>
           obstacles g' = pre @ post \<and>
           powerup_active g' = None \<and>
           powerup_timer g' = 0 \<and>
           invincible (player g') = 90 \<and>
           lives g' = lives g0 \<and>
           game_over g' = game_over g0"
proof -
  have step: "run_step r g0 = Next (finish (collisions_obstacles r g))"
    using assms(1,2) run_step_blocks [of r g0 m] by simp
  have start: "lives g = lives g0" "game_over g = game_over g0"
    using assms(1,2) magnet_Inr [of "advance r g0"] by auto
  from assms(5) obtain pre ob post where sp: "obstacles g = pre @ ob # post"
    and hit: "colliderect (Player_rect (player g)) (Obstacle_rect ob)"
    and first: "\<forall>x\<in>set pre. \<not> colliderect (Player_rect (player g)) (Obstacle_rect x)"
    using split_list_first_prop
      [of "obstacles g" "\<lambda>ob. colliderect (Player_rect (player g)) (Obstacle_rect ob)"]
    by blast
  have "obstacles (collisions_obstacles r g) = pre @ post \<and>
        powerup_active (collisions_obstacles r g) = None \<and>
        powerup_timer (collisions_obstacles r g) = 0 \<and>
        invincible (player (collisions_obstacles r g)) = 90 \<and>
        lives (collisions_obstacles r g) = lives g \<and>
        game_over (collisions_obstacles r g) = game_over g"
    using collide_obstacles_first_shield [OF assms(4) assms(3) first hit, of "particle_draws r" post]
    by (simp add: collisions_obstacles_def sp)
  then have "obstacles (finish (collisions_obstacles r g)) = pre @ post \<and>
        powerup_active (finish (collisions_obstacles r g)) = None \<and>
        powerup_timer (finish (collisions_obstacles r g)) = 0 \<and>
        invincible (player (finish (collisions_obstacles r g))) = 90 \<and>
        lives (finish (collisions_obstacles r g)) = lives g0 \<and>
        game_over (finish (collisions_obstacles r g)) = game_over g0"
    using start by simp
  then show ?thesis
    using sp hit first step by blast
qed

theorem shield_consumes_first_obstacle_witness:
  "magnet (advance rnd0 game_shield) = Inr (advance rnd0 game_shield) \<and>
   powerup_active (pickups rnd0 (advance rnd0 game_shield)) = Some Shield \<and>
   invincible (player (pickups rnd0 (advance rnd0 game_shield))) = 0 \<and>
   obstacle_at Barrier 1 566 \<in> set (obstacles (pickups rnd0 (advance rnd0 game_shield))) \<and>
   colliderect (Player_rect (player (pickups rnd0 (advance rnd0 game_shield))))
     (Obstacle_rect (obstacle_at Barrier 1 566)) \<and>
   length (obstacles (pickups rnd0 (advance rnd0 game_shield))) = 3 \<and>
   (\<exists>g'. run_step rnd0 game_shield = Next g' \<and>
      length (obstacles g') = 2 \<and> powerup_active g' = None \<and> powerup_timer g' = 0 \<and>
      invincible (player g') = 90 \<and> lives g' = 3)"
proof -
  define g where "g = pickups rnd0 (advance rnd0 game_shield)"
  note e = game_shield_entry [folded g_def]
  have h3: "obstacle_at Barrier 1 566 \<in> set (obstacles g)"
    and h4: "colliderect (Player_rect (player g)) (Obstacle_rect (obstacle_at Barrier 1 566))"
    and len: "length (obstacles g) = 3"
    by (simp_all add: e entry_hits)
  from h3 h4 have h5: "\<exists>ob\<in>set (obstacles g).
      colliderect (Player_rect (player g)) (Obstacle_rect ob)"
    by blast
  from shield_consumes_first_obstacle [OF e(1) g_def e(5) e(4) h5]
  obtain g' pre ob post where s: "run_step rnd0 game_shield = Next g'"
    and "obstacles g = pre @ ob # post" and "obstacles g' = pre @ post"
    and rest: "powerup_active g' = None" "powerup_timer g' = 0" "invincible (player g') = 90"
      "lives g' = lives game_shield"
    by blast
  then have "length (obstacles g) = Suc (length (obstacles g'))"
    by simp
  then have "length (obstacles g') = 2"
    using len by simp
  moreover have "lives game_shield = 3"
    by (simp add: game_shield_fields)
  ultimately have "\<exists>g'. run_step rnd0 game_shield = Next g' \<and>
      length (obstacles g') = 2 \<and> powerup_active g' = None \<and> powerup_timer g' = 0 \<and>
      invincible (player g') = 90 \<and> lives g' = 3"
    using s rest by auto
  then show ?thesis
    using e(1,4,5) h3 h4 len unfolding g_def by blast
qed

text \<open>
  The claim C2 as it is written fails when two obstacles overlap the player: the step
  from this state enters the obstacle block with the shield active, the counter at 0 and
  both the barrier and the train of the player's lane overlapping the player, and the
  train is still in the list at the end of the step.
\<close>

theorem shield_second_obstacle_stays:
  "magnet (advance rnd0 game_shield) = Inr (advance rnd0 game_shield) \<and>
   powerup_active (pickups rnd0 (advance rnd0 game_shield)) = Some Shield \<and>
   invincible (player (pickups rnd0 (advance rnd0 game_shield))) = 0 \<and>
   obstacle_at Train 1 (- 14) \<in> set (obstacles (pickups rnd0 (advance rnd0 game_shield))) \<and>
   colliderect (Player_rect (player (pickups rnd0 (advance rnd0 game_shield))))
     (Obstacle_rect (obstacle_at Train 1 (- 14))) \<and>
   (case run_step rnd0 game_shield of
      Next g' \<Rightarrow> obstacles g' = [obstacle_at Barrier 0 306, obstacle_at Train 1 (- 14)]
    | _ \<Rightarrow> False)"
proof -
  define g where "g = pickups rnd0 (advance rnd0 game_shield)"
  note e = game_shield_entry [folded g_def]
  have "collide_obstacles (particle_draws rnd0) (obstacles g) g =
          ([obstacle_at Barrier 0 306] @ [obstacle_at Train 1 (- 14)],
           g\<lparr>powerup_active := None, powerup_timer := 0,
              player := (player g)\<lparr>invincible := 90\<rparr>,
              particles := spawn_particles (particle_draws rnd0) (pl_x (player g))
                             (pl_y (player g) - 30) CYAN 15 7 (particles g)\<rparr>)"
    unfolding e(2)
    by (rule collide_obstacles_first_shield) (simp_all add: e entry_hits)
  then have "obstacles (finish (collisions_obstacles rnd0 g)) =
               [obstacle_at Barrier 0 306, obstacle_at Train 1 (- 14)]"
    by (simp add: collisions_obstacles_def)
  moreover have "run_step rnd0 game_shield = Next (finish (collisions_obstacles rnd0 g))"
    using run_step_blocks [OF e(1)] by (simp add: g_def)
  ultimately have "case run_step rnd0 game_shield of
      Next g' \<Rightarrow> obstacles g' = [obstacle_at Barrier 0 306, obstacle_at Train 1 (- 14)]
    | _ \<Rightarrow> False"
    by simp
  moreover have "obstacle_at Train 1 (- 14) \<in> set (obstacles g)"
    and "colliderect (Player_rect (player g)) (Obstacle_rect (obstacle_at Train 1 (- 14)))"
    by (simp_all add: e entry_hits)
  ultimately show ?thesis
    using e(1,4,5) unfolding g_def by blast
qed

text \<open>
  C3. When a running step enters the obstacle block with no shield active, the
  invincibility counter at 0 and some obstacle overlapping the player, the step takes
  exactly one life, however many obstacles overlap, and sets the counter to 90. Whenever
  the block is entered with a positive counter, it changes nothing, whatever overlaps.
  The counter goes down by one in each running step, so the lives stay the same over the
  next 89 frames. Here \<open>g0\<close> is the state at the start of the step and \<open>g\<close> the state in
  which the obstacle block is entered.
\<close>

theorem obstacle_hit_costs_one_life:
  assumes "magnet (advance r g0) = Inr m" and "g = pickups r m"
    and "powerup_active g \<noteq> Some Shield"
    and "invincible (player g) = 0"
    and "\<exists>ob\<in>set (obstacles g). colliderect (Player_rect (player g)) (Obstacle_rect ob)"
  shows "(\<exists>g'. run_step r g0 = Next g' \<and>
            lives g' = lives g0 - 1 \<and>
            invincible (player g') = 90 \<and>
            obstacles g' = obstacles g \<and>
            game_over g' = (lives g0 - 1 \<le> 0 \<or> game_over g0) \<and>
            (\<forall>inps g''. length inps < 90 \<and> frames inps g' = Next g''
               \<longrightarrow> lives g'' = lives g0 - 1)) \<and>
         (\<forall>jit obs h. invincible (player h) > 0 \<longrightarrow> collide_obstacles jit obs h = (obs, h))"
proof -
  define g' where "g' = finish (collisions_obstacles r g)"
  have step: "run_step r g0 = Next g'"
    using assms(1,2) run_step_blocks [of r g0 m] by (simp add: g'_def)
  have start: "lives g = lives g0" "game_over g = game_over g0"
    using assms(1,2) magnet_Inr [of "advance r g0"] by auto
  from assms(5) obtain pre ob post where sp: "obstacles g = pre @ ob # post"
    and hit: "colliderect (Player_rect (player g)) (Obstacle_rect ob)"
    and first: "\<forall>x\<in>set pre. \<not> colliderect (Player_rect (player g)) (Obstacle_rect x)"
    using split_list_first_prop
      [of "obstacles g" "\<lambda>ob. colliderect (Player_rect (player g)) (Obstacle_rect ob)"]
    by blast
  have "lives (collisions_obstacles r g) = lives g - 1 \<and>
         invincible (player (collisions_obstacles r g)) = 90 \<and>
         obstacles (collisions_obstacles r g) = obstacles g \<and>
         game_over (collisions_obstacles r g) = (lives g - 1 \<le> 0 \<or> game_over g)"
    using collide_obstacles_first_hit [OF assms(4) assms(3) first hit, of "particle_draws r" post]
    by (simp add: collisions_obstacles_def sp)
  then have now: "lives g' = lives g0 - 1 \<and> invincible (player g') = 90 \<and>
      obstacles g' = obstacles g \<and> game_over g' = (lives g0 - 1 \<le> 0 \<or> game_over g0)"
    using start by (simp add: g'_def)
  have later: "lives g'' = lives g0 - 1"
    if "length inps < 90 \<and> frames inps g' = Next g''" for inps g''
    using frames_invincible [of inps g' g''] that now by simp
  have "collide_obstacles jit obs h = (obs, h)" if "invincible (player h) > 0" for jit obs h
    using that collide_obstacles_invincible [of h jit obs] by simp
  then show ?thesis
    using step now later by blast
qed

theorem obstacle_hit_costs_one_life_witness:
  "magnet (advance rnd0 game_obstacles) = Inr (advance rnd0 game_obstacles) \<and>
   powerup_active (pickups rnd0 (advance rnd0 game_obstacles)) \<noteq> Some Shield \<and>
   invincible (player (pickups rnd0 (advance rnd0 game_obstacles))) = 0 \<and>
   obstacle_at Barrier 1 566 \<in> set (obstacles (pickups rnd0 (advance rnd0 game_obstacles))) \<and>
   colliderect (Player_rect (player (pickups rnd0 (advance rnd0 game_obstacles))))
     (Obstacle_rect (obstacle_at Barrier 1 566)) \<and>
   lives game_obstacles = 3 \<and>
   (\<exists>g'. run_step rnd0 game_obstacles = Next g' \<and> lives g' = 2 \<and>
      invincible (player g') = 90 \<and> length (obstacles g') = 3 \<and>
      (\<exists>g''. frames [([KEYDOWN K_SPACE], rnd0)] g' = Next g'' \<and> lives g'' = 2))"
proof -
  define g where "g = pickups rnd0 (advance rnd0 game_obstacles)"
  note e = game_obstacles_entry [folded g_def]
  have h2: "powerup_active g \<noteq> Some Shield"
    and h3: "obstacle_at Barrier 1 566 \<in> set (obstacles g)"
    and h4: "colliderect (Player_rect (player g)) (Obstacle_rect (obstacle_at Barrier 1 566))"
    and len: "length (obstacles g) = 3"
    by (simp_all add: e entry_hits)
  from h3 h4 have h5: "\<exists>ob\<in>set (obstacles g).
      colliderect (Player_rect (player g)) (Obstacle_rect ob)"
    by blast
  have l: "lives game_obstacles = 3" and go: "\<not> game_over game_obstacles"
    and ru: "running game_obstacles" and pa: "\<not> paused game_obstacles"
    by (simp_all add: game_obstacles_fields(2-))
  from obstacle_hit_costs_one_life [OF e(1) g_def h2 e(4) h5, THEN conjunct1]
  obtain g' where s: "run_step rnd0 game_obstacles = Next g'"
    and now: "lives g' = lives game_obstacles - 1" "invincible (player g') = 90"
      "obstacles g' = obstacles g"
      "game_over g' = (lives game_obstacles - 1 \<le> 0 \<or> game_over game_obstacles)"
    and later: "\<forall>inps g''. length inps < 90 \<and> frames inps g' = Next g''
               \<longrightarrow> lives g'' = lives game_obstacles - 1"
    by blast
  have "g' = finish (collisions_obstacles rnd0 g)"
    using s run_step_blocks [OF e(1)] by (simp add: g_def)
  then have flags: "running g'" "\<not> paused g'" "\<not> game_over g'"
    using now(4) l go ru pa by (simp_all add: g_def)
  obtain h1 where ev: "handle_events (particle_draws rnd0) [KEYDOWN K_SPACE] g' = Next h1"
    and f1: "\<not> paused h1" "\<not> game_over h1"
    using flags by (simp add: handle_keydown_def case_prod_unfold)
  obtain g'' where "run_step rnd0 h1 = Next g''"
    using run_step_Next by blast
  then have fr: "frames [([KEYDOWN K_SPACE], rnd0)] g' = Next g''"
    using ev f1 flags by (simp add: frame_def)
  have "lives g'' = 2"
    using later [rule_format, of "[([KEYDOWN K_SPACE], rnd0)]" g''] fr l by simp
  then have "\<exists>g'. run_step rnd0 game_obstacles = Next g' \<and> lives g' = 2 \<and>
      invincible (player g') = 90 \<and> length (obstacles g') = 3 \<and>
      (\<exists>g''. frames [([KEYDOWN K_SPACE], rnd0)] g' = Next g'' \<and> lives g'' = 2)"
    using s now len l fr by auto
  then show ?thesis
    using e(1,4) h2 h3 h4 l unfolding g_def by blast
qed

text \<open>
  C4, as amended. A frame keeps \<open>lives > 0 or game_over\<close>: once the lives reach zero, the
  session is ended. In an ended session the frames change nothing but the flags \<open>paused\<close>
  and \<open>running\<close>, until the loop is left: no entity and no counter is mutated. The events
  with an effect are the window's quit (the process exits), the keys Escape and Space
  (the loop is left) and the key P, which still toggles \<open>paused\<close>; every other event is
  ignored.
\<close>

theorem ended_session_is_frozen:
  "(0 < lives g \<or> game_over g \<longrightarrow> frame inp g = Next g' \<longrightarrow> 0 < lives g' \<or> game_over g') \<and>
   (game_over g \<longrightarrow> frames inps g = Next g' \<longrightarrow>
      g'\<lparr>paused := paused g, running := running g\<rparr> = g \<and> game_over g') \<and>
   (game_over g \<longrightarrow>
      handle_event jit e g =
        (case e of
           QUIT \<Rightarrow> SysExit
         | KEYDOWN k \<Rightarrow>
             if k = K_ESCAPE \<or> k = K_SPACE then Next (g\<lparr>running := False\<rparr>)
             else if k = K_p then Next (g\<lparr>paused := \<not> paused g\<rparr>)
             else Next g
         | OTHER_EVENT \<Rightarrow> Next g))"
  using frame_lives_ended [of g inp g'] frames_ended [of g inps g'] handle_event_ended [of g jit e]
  by blast

theorem ended_session_is_frozen_witness:
  "(0 < lives game_obstacles \<or> game_over game_obstacles) \<and>
   (\<exists>g'. frame ([], rnd0) game_obstacles = Next g' \<and> (0 < lives g' \<or> game_over g')) \<and>
   game_over game_ended \<and>
   (\<exists>g'. frames [([KEYDOWN K_LEFT, KEYDOWN K_UP, KEYDOWN K_p], rnd0),
                  ([KEYDOWN K_DOWN, KEYDOWN K_SPACE], rnd0), ([KEYDOWN K_p], rnd0)] game_ended = Next g' \<and>
         g'\<lparr>paused := paused game_ended, running := running game_ended\<rparr> = game_ended \<and>
         paused g' \<and> \<not> running g') \<and>
   handle_event (particle_draws rnd0) (KEYDOWN K_LEFT) game_ended = Next game_ended"
proof -
  have a: "0 < lives game_obstacles \<or> game_over game_obstacles"
    by (simp add: game_obstacles_fields(2-))
  obtain g1 where f: "frame ([], rnd0) game_obstacles = Next g1"
    using run_step_Next [of rnd0 game_obstacles]
    by (simp add: frame_def game_obstacles_fields(2-))
  have b: "0 < lives g1 \<or> game_over g1"
    using ended_session_is_frozen [of game_obstacles "([], rnd0)" g1] a f by blast
  have c: "game_over game_ended"
    by (simp add: game_ended_def game_setup_def)
  have d: "(game_ended\<lparr>paused := True, running := False\<rparr>)\<lparr>paused := paused game_ended,
      running := running game_ended\<rparr> = game_ended"
    using ended_session_is_frozen [of game_ended _ "game_ended\<lparr>paused := True, running := False\<rparr>"
        "[([KEYDOWN K_LEFT, KEYDOWN K_UP, KEYDOWN K_p], rnd0),
          ([KEYDOWN K_DOWN, KEYDOWN K_SPACE], rnd0), ([KEYDOWN K_p], rnd0)]"]
      c game_ended_frames by blast
  have e: "handle_event (particle_draws rnd0) (KEYDOWN K_LEFT) game_ended = Next game_ended"
    using ended_session_is_frozen [of game_ended _ _ _ "particle_draws rnd0" "KEYDOWN K_LEFT"] c
    by simp
  show ?thesis
    using a f b c d e game_ended_frames by auto
qed

text \<open>
  The claim C4 as it is written fails for the pause toggle: in an ended session the key P
  still flips the flag \<open>paused\<close>.
\<close>

theorem pause_toggle_in_ended_session:
  "game_over game_ended \<and> \<not> paused game_ended \<and>
   frame ([KEYDOWN K_p], rnd0) game_ended = Next (game_ended\<lparr>paused := True\<rparr>) \<and>
   game_ended\<lparr>paused := True\<rparr> \<noteq> game_ended"
proof -
  have g: "game_over game_ended" "\<not> paused game_ended"
    by (simp_all add: game_ended_def game_setup_def)
  have "frame ([KEYDOWN K_p], rnd0) game_ended = Next (game_ended\<lparr>paused := True\<rparr>)"
    using g by (simp add: frame_def handle_keydown_ended)
  moreover have "paused (game_ended\<lparr>paused := True\<rparr>) \<noteq> paused game_ended"
    using g by simp
  then have "game_ended\<lparr>paused := True\<rparr> \<noteq> game_ended"
    by metis
  ultimately show ?thesis
    using g by simp
qed

text \<open>
  C5, as amended. A power-up leaves the collection only in the update loop of a running
  step, when it is off-screen after moving. Collecting it sets its flag and leaves it in
  the collection: at the end of a running step the collection holds, in order, the
  power-ups (one spawned in this step included) that are not off-screen after moving, the
  collected ones among them flagged.
\<close>

theorem powerups_leave_only_off_screen:
  assumes "run_step r g = Next g'"
  shows "powerups g' =
           map (\<lambda>pu. if \<not> pu_collected pu \<and>
                         colliderect (Player_rect (player g')) (Powerup_rect pu)
                      then pu\<lparr>pu_collected := True\<rparr> else pu)
             (filter (\<lambda>pu. \<not> Powerup_is_off_screen pu)
                (map (\<lambda>pu. Powerup_update (pu\<lparr>pu_speed := speed g'\<rparr>))
                   (powerups (spawn_powerups r (g\<lparr>speed := speed g'\<rparr>)))))"
proof -
  have "g' = resolve r (projr (magnet (advance r g)))"
    using assms run_step_Next [of r g] by simp
  then show ?thesis
    by (simp add: resolve_powerups advance_lists update_powerups_def)
qed

theorem powerups_leave_only_off_screen_witness:
  "\<exists>g'. run_step rnd0 game_powerup = Next g' \<and>
     powerups g' =
       [(powerup_at 1 14 Shield)\<lparr>pu_speed := 6, pu_y := 20, pu_anim := 1, pu_collected := True\<rparr>]"
proof -
  obtain g' where h: "run_step rnd0 game_powerup = Next g'"
    using run_step_Next by blast
  then have g': "g' = resolve rnd0 (projr (magnet (advance rnd0 game_powerup)))"
    using game_powerup_step(1) by simp
  have sp: "speed g' = 6"
    unfolding g' by (simp add: game_powerup_def game_setup_def speed_ramp_def)
  have "player game_powerup = Player"
    by (simp add: game_powerup_def game_setup_def)
  then have pr: "Player_rect (player g') = \<lparr>rx = 222, ry = 534, rw = 36, rh = 56\<rparr>"
    unfolding g' by (simp add: Player_update_initial Player_rect_initial)
  have l: "powerups (spawn_powerups rnd0 (game_powerup\<lparr>speed := 6\<rparr>)) = [powerup_at 1 14 Shield]"
    by (simp add: game_powerup_def game_setup_def spawn_powerups_def)
  have u: "Powerup_update ((powerup_at 1 14 Shield)\<lparr>pu_speed := 6\<rparr>) =
             (powerup_at 1 14 Shield)\<lparr>pu_speed := 6, pu_y := 20, pu_anim := 1\<rparr>"
    by (simp add: Powerup_update_def powerup_at_def)
  have o: "\<not> Powerup_is_off_screen
             ((powerup_at 1 14 Shield)\<lparr>pu_speed := 6, pu_y := 20, pu_anim := 1\<rparr>)"
    and c: "\<not> pu_collected ((powerup_at 1 14 Shield)\<lparr>pu_speed := 6, pu_y := 20, pu_anim := 1\<rparr>)"
    by (simp_all add: Powerup_is_off_screen_def HEIGHT_def powerup_at_def)
  have "powerups g' =
       [(powerup_at 1 14 Shield)\<lparr>pu_speed := 6, pu_y := 20, pu_anim := 1, pu_collected := True\<rparr>]"
    using powerups_leave_only_off_screen [OF h] unfolding sp pr l
    by (simp add: u o c powerup_at_rect colliderect_def)
  then show ?thesis
    using h by blast
qed

text \<open>
  The claim C5 as it is written fails: the player collects the power-up of this state in
  the step (its flag goes from false to true), and at the end of the step it is still in
  the collection.
\<close>

theorem collected_powerup_stays:
  "powerups game_powerup = [powerup_at 1 14 Shield] \<and>
   \<not> pu_collected (powerup_at 1 14 Shield) \<and>
   (case run_step rnd0 game_powerup of
      Next g' \<Rightarrow>
        powerups g' =
          [(powerup_at 1 14 Shield)\<lparr>pu_speed := 6, pu_y := 20, pu_anim := 1,
                                     pu_collected := True\<rparr>]
    | _ \<Rightarrow> False)"
proof (intro conjI)
  show "powerups game_powerup = [powerup_at 1 14 Shield]"
    by (simp add: game_powerup_def game_setup_def)
  show "\<not> pu_collected (powerup_at 1 14 Shield)"
    by (simp add: powerup_at_def)
  show "case run_step rnd0 game_powerup of
      Next g' \<Rightarrow>
        powerups g' =
          [(powerup_at 1 14 Shield)\<lparr>pu_speed := 6, pu_y := 20, pu_anim := 1,
                                     pu_collected := True\<rparr>]
    | _ \<Rightarrow> False"
    unfolding game_powerup_step(1) by (simp only: frame_result.case game_powerup_step(2))
qed

text \<open>
  C6, as amended. Sliding does not clear a train, it only delays the hit. For a player on
  the ground and a train coming down the screen (\<open>y \<ge> 0\<close>) whose hitbox overlaps the
  player's horizontally, the collision is detected exactly while \<open>573 \<le> y < 680\<close> when the
  player slides, and while \<open>535 \<le> y < 680\<close> when the player stands. A train that advances
  by at most 24 per step cannot pass from \<open>y < 573\<close> to \<open>y \<ge> 680\<close> without a step at which
  it collides with every grounded player in its column, sliding or not. A player at the
  centre of another lane does not collide with it.
\<close>

theorem slide_does_not_clear_train:
  assumes "ob_kind ob = Train" and "ob_w ob = 44" and "ob_h ob = 90"
    and "pl_y p = of_int GROUND_Y"
  shows "(0 \<le> ob_y ob \<longrightarrow>
           (colliderect (Player_rect p) (Obstacle_rect ob) \<longleftrightarrow>
              py_int (pl_x p - 18) < ob_x ob + 22 \<and> ob_x ob - 22 < py_int (pl_x p - 18) + 36 \<and>
              (if sliding p then 573 else 535) \<le> ob_y ob \<and> ob_y ob < 680)) \<and>
         ((\<forall>s\<in>set ss. 0 \<le> s \<and> s \<le> 24) \<and> 0 \<le> ob_y ob \<and> ob_y ob < 573 \<and>
            680 \<le> ob_y (Obstacle_updates ss ob) \<longrightarrow>
          (\<exists>n\<le>length ss. \<forall>q.
             pl_y q = of_int GROUND_Y \<and>
             py_int (pl_x q - 18) < ob_x ob + 22 \<and> ob_x ob - 22 < py_int (pl_x q - 18) + 36 \<longrightarrow>
             colliderect (Player_rect q) (Obstacle_rect (Obstacle_updates (take n ss) ob)))) \<and>
         (pl_x p = of_int l \<and> l \<in> set LANES \<and> ob_x ob \<in> set LANES \<and> l \<noteq> ob_x ob \<longrightarrow>
          \<not> colliderect (Player_rect p) (Obstacle_rect ob))"
proof (intro conjI impI)
  assume "0 \<le> ob_y ob"
  then show "colliderect (Player_rect p) (Obstacle_rect ob) \<longleftrightarrow>
      py_int (pl_x p - 18) < ob_x ob + 22 \<and> ob_x ob - 22 < py_int (pl_x p - 18) + 36 \<and>
      (if sliding p then 573 else 535) \<le> ob_y ob \<and> ob_y ob < 680"
    using train_collision_iff [OF assms(1-3) _ assms(4)] by simp
next
  assume h: "(\<forall>s\<in>set ss. 0 \<le> s \<and> s \<le> 24) \<and> 0 \<le> ob_y ob \<and> ob_y ob < 573 \<and>
            680 \<le> ob_y (Obstacle_updates ss ob)"
  then obtain n where n: "n \<le> length ss"
    and w: "573 \<le> ob_y ob + sum_list (take n ss)" "ob_y ob + sum_list (take n ss) < 680"
    using train_cannot_skip [of ss "ob_y ob"] by (auto simp add: Obstacle_updates_y)
  define ob' where "ob' = Obstacle_updates (take n ss) ob"
  have y': "ob_y ob' = ob_y ob + sum_list (take n ss)"
    by (simp add: ob'_def Obstacle_updates_y)
  have t': "ob_kind ob' = Train" "ob_w ob' = 44" "ob_h ob' = 90" "ob_x ob' = ob_x ob"
    using assms(1-3) by (simp_all add: ob'_def)
  have "colliderect (Player_rect q) (Obstacle_rect ob')"
    if "pl_y q = of_int GROUND_Y \<and>
        py_int (pl_x q - 18) < ob_x ob + 22 \<and> ob_x ob - 22 < py_int (pl_x q - 18) + 36" for q
    using train_collision_iff [OF t'(1-3), of q] that w y' t'(4) by auto
  then show "\<exists>n\<le>length ss. \<forall>q.
             pl_y q = of_int GROUND_Y \<and>
             py_int (pl_x q - 18) < ob_x ob + 22 \<and> ob_x ob - 22 < py_int (pl_x q - 18) + 36 \<longrightarrow>
             colliderect (Player_rect q) (Obstacle_rect (Obstacle_updates (take n ss) ob))"
    using n unfolding ob'_def by blast
next
  assume h: "pl_x p = of_int l \<and> l \<in> set LANES \<and> ob_x ob \<in> set LANES \<and> l \<noteq> ob_x ob"
  then have far: "l + 120 \<le> ob_x ob \<or> ob_x ob + 120 \<le> l"
    using lanes_apart [of l "ob_x ob"] by simp
  have px: "py_int (pl_x p - 18) = l - 18"
    using h by simp
  have "rx (Obstacle_rect ob) = ob_x ob - 22" "rw (Obstacle_rect ob) = 44"
    using assms(2) by (simp_all add: Obstacle_rect_def Rect_def)
  moreover have "rx (Player_rect p) = l - 18" "rw (Player_rect p) = 36"
    using px by (simp_all add: Player_rect_ground [OF assms(4)])
  ultimately show "\<not> colliderect (Player_rect p) (Obstacle_rect ob)"
    using far by (auto simp add: colliderect_def)
qed

theorem slide_does_not_clear_train_witness:
  "ob_kind (obstacle_at Train 1 550) = Train \<and> ob_w (obstacle_at Train 1 550) = 44 \<and>
   ob_h (obstacle_at Train 1 550) = 90 \<and> pl_y (slide Player) = of_int GROUND_Y \<and>
   sliding (slide Player) \<and>
   (0 :: real) \<le> ob_y (obstacle_at Train 1 550) \<and> ob_y (obstacle_at Train 1 550) < 573 \<and>
   680 \<le> ob_y (Obstacle_updates [24, 24, 24, 24, 24, 24] (obstacle_at Train 1 550)) \<and>
   \<not> colliderect (Player_rect (slide Player)) (Obstacle_rect (obstacle_at Train 1 550)) \<and>
   (\<exists>n\<le>6. colliderect (Player_rect (slide Player))
      (Obstacle_rect (Obstacle_updates (take n [24, 24, 24, 24, 24, 24]) (obstacle_at Train 1 550))))"
proof -
  have a: "ob_kind (obstacle_at Train 1 550) = Train" "ob_w (obstacle_at Train 1 550) = 44"
    "ob_h (obstacle_at Train 1 550) = 90" "pl_y (slide Player) = of_int GROUND_Y"
    by (simp_all add: slide_Player)
  note t = slide_does_not_clear_train [OF a, of "[24, 24, 24, 24, 24, 24]"]
  have x: "py_int (pl_x (slide Player) - 18) < ob_x (obstacle_at Train 1 550) + 22 \<and>
        ob_x (obstacle_at Train 1 550) - 22 < py_int (pl_x (slide Player) - 18) + 36"
    by (simp add: slide_Player)
  have 1: "\<not> colliderect (Player_rect (slide Player)) (Obstacle_rect (obstacle_at Train 1 550))"
    using t [THEN conjunct1] by (simp add: slide_Player)
  have h: "(\<forall>s\<in>set [24, 24, 24, 24, 24, 24 :: real]. 0 \<le> s \<and> s \<le> 24) \<and>
      0 \<le> ob_y (obstacle_at Train 1 550) \<and> ob_y (obstacle_at Train 1 550) < 573 \<and>
      680 \<le> ob_y (Obstacle_updates [24, 24, 24, 24, 24, 24] (obstacle_at Train 1 550))"
    unfolding Obstacle_updates_y by simp
  from t [THEN conjunct2, THEN conjunct1, rule_format, OF h]
  obtain n where n: "n \<le> length [24, 24, 24, 24, 24, 24 :: real]"
    and nq: "\<forall>q. pl_y q = of_int GROUND_Y \<and>
             py_int (pl_x q - 18) < ob_x (obstacle_at Train 1 550) + 22 \<and>
             ob_x (obstacle_at Train 1 550) - 22 < py_int (pl_x q - 18) + 36 \<longrightarrow>
             colliderect (Player_rect q)
               (Obstacle_rect (Obstacle_updates (take n [24, 24, 24, 24, 24, 24])
                  (obstacle_at Train 1 550)))"
    by blast
  have "colliderect (Player_rect (slide Player))
      (Obstacle_rect (Obstacle_updates (take n [24, 24, 24, 24, 24, 24]) (obstacle_at Train 1 550)))"
    using nq [rule_format, of "slide Player"] x a(4) by blast
  moreover have "n \<le> 6"
    using n by simp
  ultimately have 2: "\<exists>n\<le>6. colliderect (Player_rect (slide Player))
      (Obstacle_rect (Obstacle_updates (take n [24, 24, 24, 24, 24, 24]) (obstacle_at Train 1 550)))"
    by blast
  have 3: "sliding (slide Player)"
    by (simp add: slide_Player)
  show ?thesis
    using a 1 2 3 h by blast
qed

text \<open>
  The claim C6 as it is written fails: this train overlaps the hitbox of the standing
  player in its lane, and does not overlap the hitbox of the same player sliding.
\<close>

theorem train_missed_while_sliding:
  "ob_kind (obstacle_at Train 1 550) = Train \<and>
   ob_lane (obstacle_at Train 1 550) = lane Player \<and>
   lane (slide Player) = lane Player \<and>
   sliding (slide Player) \<and> \<not> sliding Player \<and>
   colliderect (Player_rect Player) (Obstacle_rect (obstacle_at Train 1 550)) \<and>
   \<not> colliderect (Player_rect (slide Player)) (Obstacle_rect (obstacle_at Train 1 550))"
  by (simp add: slide_Player obstacle_at_rect Player_rect_initial colliderect_def)
     (simp add: obstacle_at_def Player_def slide_def)

text \<open>
  C7, as amended. A lane move within bounds sets the target to the centre of the new lane
  and leaves the position. With the target fixed, every running step, by its call of
  \<open>player.update()\<close>, adds \<open>0.22 * (target - x)\<close> to the horizontal position, so the
  remaining distance to the target is multiplied by 0.78: the position moves toward the
  target monotonically, never overshoots it, and comes within every positive distance of
  it after a bounded number of steps. It never equals the target unless it started there.
\<close>

theorem easing_approaches_target:
  "(0 \<le> lane p0 + k \<and> lane p0 + k < LANE_COUNT \<longrightarrow>
      target_x (move_lane p0 k) = of_int (LANES ! nat (lane p0 + k)) \<and>
      pl_x (move_lane p0 k) = pl_x p0) \<and>
   (run_step r g = Next g' \<longrightarrow>
      pl_x (player g') = pl_x (player g) + 0.22 * (target_x (player g) - pl_x (player g)) \<and>
      target_x (player g') = target_x (player g)) \<and>
   pl_x (fst (Player_update jit p ps)) = pl_x p + 0.22 * (target_x p - pl_x p) \<and>
   target_x (fst (Player_updates jit n (p, ps))) = target_x p \<and>
   target_x p - pl_x (fst (Player_updates jit n (p, ps))) = 0.78 ^ n * (target_x p - pl_x p) \<and>
   \<bar>target_x p - pl_x (fst (Player_updates jit (Suc n) (p, ps)))\<bar>
     \<le> \<bar>target_x p - pl_x (fst (Player_updates jit n (p, ps)))\<bar> \<and>
   (pl_x p \<le> target_x p \<longrightarrow>
      pl_x (fst (Player_updates jit n (p, ps))) \<le> pl_x (fst (Player_updates jit (Suc n) (p, ps))) \<and>
      pl_x (fst (Player_updates jit (Suc n) (p, ps))) \<le> target_x p) \<and>
   (target_x p \<le> pl_x p \<longrightarrow>
      pl_x (fst (Player_updates jit (Suc n) (p, ps))) \<le> pl_x (fst (Player_updates jit n (p, ps))) \<and>
      target_x p \<le> pl_x (fst (Player_updates jit (Suc n) (p, ps)))) \<and>
   (0 < eps \<longrightarrow>
      (\<exists>N. \<forall>m\<ge>N. \<bar>target_x p - pl_x (fst (Player_updates jit m (p, ps)))\<bar> < eps)) \<and>
   (pl_x p \<noteq> target_x p \<longrightarrow> pl_x (fst (Player_updates jit n (p, ps))) \<noteq> target_x p)"
proof -
  define d where "d = target_x p - pl_x p"
  define x where "x = (\<lambda>k. pl_x (fst (Player_updates jit k (p, ps))))"
  have gap: "target_x p - x k = 0.78 ^ k * d" for k
    unfolding x_def d_def by (rule Player_updates_gap)
  have pow: "(0.78 :: real) ^ Suc k \<le> 0.78 ^ k" "(0 :: real) \<le> 0.78 ^ k" "(0 :: real) < 0.78 ^ k" for k
    by (simp_all add: power_decreasing)
  have 0: "pl_x (player g') = pl_x (player g) + 0.22 * (target_x (player g) - pl_x (player g)) \<and>
      target_x (player g') = target_x (player g)" if "run_step r g = Next g'"
    using run_step_x [OF that] by simp
  have m: "target_x (move_lane p0 k) = of_int (LANES ! nat (lane p0 + k)) \<and>
      pl_x (move_lane p0 k) = pl_x p0" if "0 \<le> lane p0 + k \<and> lane p0 + k < LANE_COUNT"
    using that by (simp add: move_lane_def Let_def)
  have 1: "pl_x (fst (Player_update jit p ps)) = pl_x p + 0.22 * (target_x p - pl_x p)"
    by (simp add: Player_update_x)
  have 2: "target_x (fst (Player_updates jit n (p, ps))) = target_x p"
    by simp
  have 4: "\<bar>target_x p - x (Suc n)\<bar> \<le> \<bar>target_x p - x n\<bar>"
  proof -
    have "\<bar>target_x p - x (Suc n)\<bar> = 0.78 ^ Suc n * \<bar>d\<bar>"
      unfolding gap by (simp add: abs_mult)
    also have "\<dots> \<le> 0.78 ^ n * \<bar>d\<bar>"
      by (rule mult_right_mono) (simp_all add: pow)
    also have "\<dots> = \<bar>target_x p - x n\<bar>"
      unfolding gap by (simp add: abs_mult)
    finally show ?thesis .
  qed
  have 5: "x n \<le> x (Suc n) \<and> x (Suc n) \<le> target_x p" if "pl_x p \<le> target_x p"
  proof -
    have d0: "0 \<le> d" using that by (simp add: d_def)
    have "0.78 ^ Suc n * d \<le> 0.78 ^ n * d"
      using d0 pow(1) [of n] by (rule_tac mult_right_mono) simp_all
    moreover have "0 \<le> 0.78 ^ Suc n * d"
      using d0 by simp
    ultimately show ?thesis
      using gap [of n] gap [of "Suc n"] by linarith
  qed
  have 6: "x (Suc n) \<le> x n \<and> target_x p \<le> x (Suc n)" if "target_x p \<le> pl_x p"
  proof -
    have d0: "d \<le> 0" using that by (simp add: d_def)
    have "0.78 ^ n * d \<le> 0.78 ^ Suc n * d"
      using pow(1) [of n] d0 by (rule mult_right_mono_neg)
    moreover have "0.78 ^ Suc n * d \<le> 0"
      using pow(2) [of "Suc n"] d0 by (rule mult_nonneg_nonpos)
    ultimately show ?thesis
      using gap [of n] gap [of "Suc n"] by linarith
  qed
  have 7: "\<exists>N. \<forall>m\<ge>N. \<bar>target_x p - x m\<bar> < eps" if "0 < eps"
  proof -
    have "0 < eps / (\<bar>d\<bar> + 1)"
      using that by simp
    then obtain N where N: "(0.78 :: real) ^ N < eps / (\<bar>d\<bar> + 1)"
      using real_arch_pow_inv [of "eps / (\<bar>d\<bar> + 1)" "0.78"] by auto
    have "\<bar>target_x p - x m\<bar> < eps" if "N \<le> m" for m
    proof -
      have "(0.78 :: real) ^ m \<le> 0.78 ^ N"
        using that by (simp add: power_decreasing)
      then have "0.78 ^ m * \<bar>d\<bar> \<le> 0.78 ^ N * \<bar>d\<bar>"
        by (rule mult_right_mono) simp
      also have "\<dots> \<le> 0.78 ^ N * (\<bar>d\<bar> + 1)"
        by (rule mult_left_mono) simp_all
      also have "\<dots> < eps"
        using N by (simp add: pos_less_divide_eq)
      finally show ?thesis
        unfolding gap by (simp add: abs_mult)
    qed
    then show ?thesis by blast
  qed
  have 8: "x n \<noteq> target_x p" if "pl_x p \<noteq> target_x p"
  proof -
    have "d \<noteq> 0" using that by (simp add: d_def)
    then show ?thesis using gap [of n] by auto
  qed
  show ?thesis
    using m 0 1 2 gap [of n] 4 5 6 7 8 unfolding x_def d_def by blast
qed

theorem easing_approaches_target_witness:
  "0 \<le> lane Player + 1 \<and> lane Player + 1 < LANE_COUNT \<and>
   target_x (move_lane Player 1) = 360 \<and>
   (\<exists>g1. run_step rnd0 ((game_setup 0 [])\<lparr>player := move_lane Player 1\<rparr>) = Next g1 \<and>
      pl_x (player g1) = 266.4) \<and>
   pl_x (move_lane Player 1) \<le> target_x (move_lane Player 1) \<and>
   pl_x (move_lane Player 1) \<noteq> target_x (move_lane Player 1) \<and>
   pl_x (fst (Player_updates (particle_draws rnd0) 2 (move_lane Player 1, []))) = 286.992 \<and>
   pl_x (fst (Player_updates (particle_draws rnd0) 2 (move_lane Player 1, [])))
     \<le> pl_x (fst (Player_updates (particle_draws rnd0) 3 (move_lane Player 1, []))) \<and>
   pl_x (fst (Player_updates (particle_draws rnd0) 3 (move_lane Player 1, []))) \<le> 360 \<and>
   pl_x (fst (Player_updates (particle_draws rnd0) 2 (move_lane Player 1, []))) \<noteq> 360 \<and>
   (0 :: real) < 1 \<and>
   (\<exists>N. \<forall>m\<ge>N. \<bar>360 - pl_x (fst (Player_updates (particle_draws rnd0) m
                                     (move_lane Player 1, [])))\<bar> < 1)"
proof -
  obtain g1 where s: "run_step rnd0 ((game_setup 0 [])\<lparr>player := move_lane Player 1\<rparr>) = Next g1"
    using run_step_Next by blast
  note t = easing_approaches_target [where ?p0.0 = Player and k = 1 and r = rnd0
      and g = "(game_setup 0 [])\<lparr>player := move_lane Player 1\<rparr>" and g' = g1
      and jit = "particle_draws rnd0" and p = "move_lane Player 1" and ps = "[]" and n = 2
      and eps = 1, unfolded move_lane_initial]
  have n: "Suc 2 = 3" by simp
  have "pl_x (player g1) = 266.4"
    using t s by (simp add: move_lane_initial)
  moreover have "pl_x (fst (Player_updates (particle_draws rnd0) 2 (move_lane Player 1, []))) = 286.992"
    using t by (simp add: power2_eq_square)
  moreover have "0 \<le> lane Player + 1 \<and> lane Player + 1 < LANE_COUNT"
    by (simp add: Player_def LANE_COUNT_def)
  ultimately show ?thesis
    using t s unfolding n by (auto simp add: move_lane_initial)
qed

text \<open>
  The claim C7 as it is written fails: after the move from the middle lane to the right
  lane, no number of steps brings the position to the target lane centre.
\<close>

theorem easing_never_reaches_target:
  "\<forall>n. pl_x (fst (Player_updates (particle_draws rnd0) n (move_lane Player 1, [])))
        \<noteq> target_x (move_lane Player 1)"
proof
  fix n
  have "target_x (move_lane Player 1)
          - pl_x (fst (Player_updates (particle_draws rnd0) n (move_lane Player 1, [])))
        = 0.78 ^ n * 120"
    unfolding Player_updates_gap by (simp add: move_lane_initial)
  moreover have "(0.78 :: real) ^ n * 120 \<noteq> 0"
    by simp
  ultimately show "pl_x (fst (Player_updates (particle_draws rnd0) n (move_lane Player 1, [])))
        \<noteq> target_x (move_lane Player 1)"
    by auto
qed

text \<open>
  C8. A running step sets the speed to \<open>min(6.0 + (score/500) * 2.0, 18.0)\<close>, computed
  from the score at the start of the step, and to \<open>min(that * 1.5, 24.0)\<close> when boost is
  the active power-up; so the speed of a step never exceeds 18.0 without boost and never
  exceeds 24.0 at all, whatever the score.
\<close>

theorem speed_clamped:
  assumes "run_step r g = Next g'"
  shows "speed g' =
           (if powerup_active g = Some Boost
            then min (min (6.0 + (score g / 500) * 2.0) 18.0 * 1.5) 24.0
            else min (6.0 + (score g / 500) * 2.0) 18.0) \<and>
         (powerup_active g \<noteq> Some Boost \<longrightarrow> speed g' \<le> 18.0) \<and>
         speed g' \<le> 24.0"
proof -
  have "g' = resolve r (projr (magnet (advance r g)))"
    using assms run_step_Next [of r g] by simp
  then have "speed g' = speed_ramp (score g) (powerup_active g)"
    by simp
  moreover have "min (6 + score g / 500 * 2) 18 \<le> (24 :: real)"
    by linarith
  ultimately show ?thesis
    by (simp add: speed_ramp_def Let_def)
qed

theorem speed_clamped_witness:
  "\<exists>g1 g2. run_step rnd0 (game_setup 0 []) = Next g1 \<and> speed g1 = 6 \<and>
     run_step rnd0 ((game_setup 0 [])\<lparr>score := 100000, powerup_active := Some Boost\<rparr>) = Next g2 \<and>
     speed g2 = 24"
proof -
  obtain g1 where h1: "run_step rnd0 (game_setup 0 []) = Next g1"
    using run_step_Next by blast
  obtain g2 where h2:
    "run_step rnd0 ((game_setup 0 [])\<lparr>score := 100000, powerup_active := Some Boost\<rparr>) = Next g2"
    using run_step_Next by blast
  have "speed g1 = 6"
    using speed_clamped [OF h1] by (simp add: game_setup_def)
  moreover have "speed g2 = 24"
    using speed_clamped [OF h2] by (simp add: game_setup_def)
  ultimately show ?thesis
    using h1 h2 by blast
qed

text \<open>
  C9. At the end of a running step that starts with a score of at least 0, as every score
  of a session is, no obstacle, coin or power-up of the collections is off-screen, coins
  moved by the magnet and collected coins and power-ups included, and no particle has a
  lifetime of 0 or less. The score is again at least 0.
\<close>

theorem no_off_screen_entity_remains:
  assumes "run_step r g = Next g'" and "0 \<le> score g"
  shows "(\<forall>ob\<in>set (obstacles g'). \<not> Obstacle_is_off_screen ob) \<and>
         (\<forall>c\<in>set (coins_list g'). \<not> Coin_is_off_screen c) \<and>
         (\<forall>pu\<in>set (powerups g'). \<not> Powerup_is_off_screen pu) \<and>
         (\<forall>p\<in>set (particles g'). \<not> life p \<le> 0) \<and>
         0 \<le> score g'"
proof -
  define a where "a = advance r g"
  define h where "h = projr (magnet a)"
  have g': "g' = resolve r h"
    using assms(1) run_step_Next [of r g] by (simp add: h_def a_def)
  have sp: "6 \<le> speed a"
    using assms(2) by (simp add: a_def speed_ramp_ge)
  have "\<forall>ob\<in>set (obstacles h). \<not> Obstacle_is_off_screen ob"
    using advance_on_screen(1) [of r g] by (simp add: h_def a_def)
  then have 1: "\<forall>ob\<in>set (obstacles g'). \<not> Obstacle_is_off_screen ob"
    unfolding g' using resolve_obstacles_subset [of r h] by blast
  have "\<forall>c\<in>set (coins_list h). \<not> Coin_is_off_screen c"
    unfolding h_def using advance_on_screen(2) [of r g] sp
    by (intro magnet_on_screen) (simp_all add: a_def)
  then have 2: "\<forall>c\<in>set (coins_list g'). \<not> Coin_is_off_screen c"
    unfolding g' resolve_coins by (auto simp add: Coin_is_off_screen_def)
  have "\<forall>pu\<in>set (powerups h). \<not> Powerup_is_off_screen pu"
    using advance_on_screen(3) [of r g] by (simp add: h_def a_def)
  then have 3: "\<forall>pu\<in>set (powerups g'). \<not> Powerup_is_off_screen pu"
    unfolding g' resolve_powerups by (auto simp add: Powerup_is_off_screen_def)
  have 4: "\<forall>p\<in>set (particles g'). \<not> life p \<le> 0"
    unfolding g' by (rule resolve_particles)
  have "score h = score g" and "speed h = speed a"
    by (simp_all add: h_def a_def)
  then have 5: "0 \<le> score g'"
    unfolding g' using resolve_score [of h r] assms(2) sp by simp
  from 1 2 3 4 5 show ?thesis by blast
qed

theorem no_off_screen_entity_remains_witness:
  "0 \<le> score game_powerup \<and>
   (\<exists>g'. run_step rnd0 game_powerup = Next g' \<and>
      list_all (\<lambda>ob. \<not> Obstacle_is_off_screen ob) (obstacles g') \<and>
      list_all (\<lambda>c. \<not> Coin_is_off_screen c) (coins_list g') \<and>
      list_all (\<lambda>pu. \<not> Powerup_is_off_screen pu) (powerups g') \<and>
      list_all (\<lambda>p. \<not> life p \<le> 0) (particles g') \<and>
      powerups g' \<noteq> [] \<and> 0 \<le> score g')"
proof -
  have s: "0 \<le> score game_powerup"
    by (simp add: game_powerup_def game_setup_def)
  obtain g' where h: "run_step rnd0 game_powerup = Next g'"
    using run_step_Next by blast
  then have "powerups g' \<noteq> []"
    using game_powerup_step by simp
  then show ?thesis
    using no_off_screen_entity_remains [OF h s] h s by (auto simp add: list_all_iff)
qed

text \<open>
  C10. The magnet displaces a coin only if the coin is uncollected and the distance between
  the centre of its hitbox and the centre of the player's hitbox is strictly between 1 and
  150. The two divisions by that distance are therefore never divisions by zero: the body
  of the loop, the loop, the block and the step never raise.
\<close>

theorem magnet_guard:
  "(\<exists>c'. magnet_coin pl spd c = Inr c' \<and>
      (c' \<noteq> c \<longrightarrow>
         \<not> co_collected c \<and>
         1 < hypot (of_int (centerx (Player_rect pl) - centerx (Coin_rect c)))
                   (of_int (centery (Player_rect pl) - centery (Coin_rect c))) \<and>
         hypot (of_int (centerx (Player_rect pl) - centerx (Coin_rect c)))
               (of_int (centery (Player_rect pl) - centery (Coin_rect c))) < 150)) \<and>
   (\<exists>cs'. magnet_loop pl spd cs = Inr cs') \<and>
   (\<exists>g'. magnet g = Inr g') \<and>
   (\<forall>e. run_step r g \<noteq> Raised e)"
proof -
  have "\<exists>c'. magnet_coin pl spd c = Inr c' \<and>
      (c' \<noteq> c \<longrightarrow>
         \<not> co_collected c \<and>
         1 < hypot (of_int (centerx (Player_rect pl) - centerx (Coin_rect c)))
                   (of_int (centery (Player_rect pl) - centery (Coin_rect c))) \<and>
         hypot (of_int (centerx (Player_rect pl) - centerx (Coin_rect c)))
               (of_int (centery (Player_rect pl) - centery (Coin_rect c))) < 150)"
    unfolding magnet_coin_eq by (simp add: magnet_range_def)
  moreover have "\<exists>cs'. magnet_loop pl spd cs = Inr cs'"
    using magnet_loop_Inr by blast
  moreover have "\<exists>g'. magnet g = Inr g'"
    using magnet_projr by blast
  moreover have "\<forall>e. run_step r g \<noteq> Raised e"
    by (simp add: run_step_Next)
  ultimately show ?thesis by blast
qed

theorem magnet_guard_witness:
  "magnet_coin Player 6 (coin_at 1 (- 128) False False) =
     Inr ((coin_at 1 (- 128) False False)\<lparr>co_x := 240, co_y := - 129\<rparr>) \<and>
   \<not> co_collected (coin_at 1 (- 128) False False) \<and>
   1 < hypot (of_int (centerx (Player_rect Player)
                       - centerx (Coin_rect (coin_at 1 (- 128) False False))))
             (of_int (centery (Player_rect Player)
                       - centery (Coin_rect (coin_at 1 (- 128) False False)))) \<and>
   hypot (of_int (centerx (Player_rect Player)
                   - centerx (Coin_rect (coin_at 1 (- 128) False False))))
         (of_int (centery (Player_rect Player)
                   - centery (Coin_rect (coin_at 1 (- 128) False False)))) < 150"
proof -
  have m: "magnet_coin Player 6 (coin_at 1 (- 128) False False) =
     Inr ((coin_at 1 (- 128) False False)\<lparr>co_x := 240, co_y := - 129\<rparr>)"
    unfolding magnet_coin_eq
    by (simp add: coin_at_rect Player_rect_initial centerx_def centery_def magnet_range_def)
       (simp add: coin_at_def consts_defs)
  have "(coin_at 1 (- 128) False False)\<lparr>co_x := 240, co_y := - 129\<rparr>
          \<noteq> coin_at 1 (- 128) False False"
    by (simp add: coin_at_def)
  then show ?thesis
    using magnet_guard [of Player 6 "coin_at 1 (- 128) False False"] m by auto
qed


end
